theory Spec2Isabelle
  imports Main "HOL-Library.Multiset" "HOL-Library.AList"
begin

section \<open>Timestamp extraction: \<open>parse_timestamp\<close>\<close>

text \<open>
  Both \<^verbatim>\<open>das.py\<close> and \<^verbatim>\<open>das-mainpage.py\<close> contain the same function:
  \<^verbatim>\<open>
  def parse_timestamp(text):
      try:
          timestamp_pattern = r'(\d{1,2}:)?\d{1,2}:\d{2}'
          match = re.search(timestamp_pattern, text)
          if match:
              timestamp = match.group(0)
              time_parts = timestamp.split(':')
              if len(time_parts) == 2:
                  minutes, seconds = map(int, time_parts)
                  total_seconds = minutes * 60 + seconds
              else:
                  hours, minutes, seconds = map(int, time_parts)
                  total_seconds = hours * 3600 + minutes * 60 + seconds
              return total_seconds
          return None
      except Exception as e:
          logger.error(...)
      return None
  \<close>
  A comment text is a \<open>string\<close>, a list of 8-bit characters. On these characters the
  class \<^verbatim>\<open>\d\<close> of Python's \<^verbatim>\<open>re\<close> is exactly \<open>0\<close> to \<open>9\<close> (the other decimal digits of
  Unicode lie beyond code point 255).
\<close>

subsection \<open>A backtracking matcher for the regular expression\<close>

text \<open>
  A pattern maps the remaining input to the list of its possible matches, each with the
  input left over, in the order in which a backtracking matcher tries them. The first
  element of the list is the match Python reports.
\<close>

type_synonym matcher = "string \<Rightarrow> (string \<times> string) list"

definition is_digit :: "char \<Rightarrow> bool" where
  "is_digit c = (c \<in> set ''0123456789'')"

definition re_digit :: matcher where
  "re_digit s = (case s of [] \<Rightarrow> [] | c # r \<Rightarrow> if is_digit c then [([c], r)] else [])"

definition re_char :: "char \<Rightarrow> matcher" where
  "re_char x s = (case s of [] \<Rightarrow> [] | c # r \<Rightarrow> if c = x then [([c], r)] else [])"

definition re_seq :: "matcher \<Rightarrow> matcher \<Rightarrow> matcher" where
  "re_seq p q s =
     concat (map (\<lambda>(m1, r1). map (\<lambda>(m2, r2). (m1 @ m2, r2)) (q r1)) (p s))"

definition re_opt :: "matcher \<Rightarrow> matcher" where
  \<comment> \<open>greedy \<^verbatim>\<open>?\<close>: the sub-pattern is tried first, the empty match last\<close>
  "re_opt p s = p s @ [([], s)]"

definition re_digit_1_2 :: matcher where
  \<comment> \<open>\<^verbatim>\<open>\d{1,2}\<close>, greedy: two digits are tried before one\<close>
  "re_digit_1_2 = re_seq re_digit (re_opt re_digit)"

definition re_digit_2 :: matcher where
  \<comment> \<open>\<^verbatim>\<open>\d{2}\<close>\<close>
  "re_digit_2 = re_seq re_digit re_digit"

definition timestamp_pattern :: matcher where
  \<comment> \<open>\<^verbatim>\<open>(\d{1,2}:)?\d{1,2}:\d{2}\<close>\<close>
  "timestamp_pattern =
     re_seq (re_opt (re_seq re_digit_1_2 (re_char CHR '':'')))
            (re_seq re_digit_1_2 (re_seq (re_char CHR '':'') re_digit_2))"

definition re_match :: "matcher \<Rightarrow> string \<Rightarrow> string option" where
  \<comment> \<open>the match starting at the head of the input, if any (its \<^verbatim>\<open>group(0)\<close>)\<close>
  "re_match p s = (case p s of [] \<Rightarrow> None | (m, r) # rest \<Rightarrow> Some m)"

fun re_search :: "matcher \<Rightarrow> string \<Rightarrow> string option" where
  \<comment> \<open>\<^verbatim>\<open>re.search\<close>: the match at the leftmost position that has one\<close>
  "re_search p [] = re_match p []"
| "re_search p (c # cs) =
     (case re_match p (c # cs) of Some m \<Rightarrow> Some m | None \<Rightarrow> re_search p cs)"

subsection \<open>Splitting and conversion\<close>

fun str_split :: "char \<Rightarrow> string \<Rightarrow> string list" where
  \<comment> \<open>\<^verbatim>\<open>s.split(sep)\<close> for a one-character separator\<close>
  "str_split sep [] = [ [] ]"
| "str_split sep (c # cs) =
     (if c = sep then [] # str_split sep cs
      else (case str_split sep cs of p # ps \<Rightarrow> (c # p) # ps | [] \<Rightarrow> [ [c] ]))"

datatype error = ValueError

definition digit_value :: "char \<Rightarrow> int" where
  "digit_value c = int (of_char c) - 48"

definition decimal :: "string \<Rightarrow> int" where
  "decimal s = foldl (\<lambda>a c. 10 * a + digit_value c) 0 s"

definition py_int :: "string \<Rightarrow> error + int" where
  \<comment> \<open>\<^verbatim>\<open>int(s)\<close> on the strings that reach it here: a non-empty run of digits converts,
      anything else is taken to raise \<^verbatim>\<open>ValueError\<close>\<close>
  "py_int s = (if s \<noteq> [] \<and> list_all is_digit s then Inr (decimal s) else Inl ValueError)"

definition parse_timestamp_try :: "string \<Rightarrow> error + int option" where
  \<comment> \<open>the body of the \<^verbatim>\<open>try\<close> block; \<open>Inl\<close> is an exception raised inside it (a failed
      \<^verbatim>\<open>int\<close>, or an unpacking of the wrong number of parts)\<close>
  "parse_timestamp_try text =
     (case re_search timestamp_pattern text of
        Some timestamp \<Rightarrow>
          (let time_parts = str_split CHR '':'' timestamp in
           if length time_parts = 2 then
             (case map py_int time_parts of
                [Inr minutes, Inr seconds] \<Rightarrow> Inr (Some (minutes * 60 + seconds))
              | _ \<Rightarrow> Inl ValueError)
           else
             (case map py_int time_parts of
                [Inr hours, Inr minutes, Inr seconds] \<Rightarrow>
                  Inr (Some (hours * 3600 + minutes * 60 + seconds))
              | _ \<Rightarrow> Inl ValueError))
      | None \<Rightarrow> Inr None)"

definition parse_timestamp :: "string \<Rightarrow> int option" where
  \<comment> \<open>\<^verbatim>\<open>except Exception\<close> logs and falls through to \<^verbatim>\<open>return None\<close>\<close>
  "parse_timestamp text =
     (case parse_timestamp_try text of Inl e \<Rightarrow> None | Inr r \<Rightarrow> r)"

definition digits :: "string \<Rightarrow> bool" where
  \<comment> \<open>a non-empty run of digits\<close>
  "digits s = (s \<noteq> [] \<and> list_all is_digit s)"

section \<open>Moment aggregation: \<open>aggregate_timeline_comments\<close>\<close>

text \<open>
  \<^verbatim>\<open>das.py\<close>:
  \<^verbatim>\<open>
  def aggregate_timeline_comments(df):
      timestamp_comments = df[df['timestamp'].notna()].copy()
      if len(timestamp_comments) == 0:
          return {}
      timeline_data = defaultdict(
          lambda: {'comments': [], 'total_likes': 0, 'representative_time': 0})
      timestamp_comments = timestamp_comments.sort_values('timestamp')
      current_group = None
      for _, row in timestamp_comments.iterrows():
          timestamp = row['timestamp']
          if current_group is None or abs(timestamp - current_group) > 5:
              current_group = timestamp
          timeline_data[current_group]['comments'].append(row.to_dict())
          timeline_data[current_group]['total_likes'] += row['likeCount']
          timeline_data[current_group]['representative_time'] = current_group
          timeline_data[current_group]['comments'].sort(
              key=lambda x: x['likeCount'], reverse=True)
      return timeline_data
  \<close>
  \<^verbatim>\<open>das-mainpage.py\<close> has the same function without the last statement of the loop: it
  never sorts the comments of a group.

  The comments arrive as a data frame with the columns \<^verbatim>\<open>text\<close>, \<^verbatim>\<open>authorDisplayName\<close>,
  \<^verbatim>\<open>likeCount\<close> and \<^verbatim>\<open>publishedAt\<close>; the caller adds the column \<^verbatim>\<open>timestamp\<close> by
  applying \<^verbatim>\<open>parse_timestamp\<close> to \<^verbatim>\<open>text\<close>. A frame is the list of its rows, in index
  order. A missing timestamp (\<^verbatim>\<open>None\<close>, stored as NaN) is \<open>None\<close>; a present one is a whole
  number of seconds, an \<open>int\<close> here also where the column stores it as a float.
\<close>

record row =
  comment_text :: string
  authorDisplayName :: string
  likeCount :: int
  publishedAt :: string
  timestamp :: "int option"

text \<open>
  The value of a group is the dictionary
  \<^verbatim>\<open>{'comments': [], 'total_likes': 0, 'representative_time': 0}\<close> of the default
  factory, updated in place. \<^verbatim>\<open>timeline_data\<close> is a \<^verbatim>\<open>defaultdict\<close>: an association list
  in insertion order, which is the order \<^verbatim>\<open>items()\<close> iterates in.
\<close>

record moment =
  comments :: "row list"
  total_likes :: int
  representative_time :: int

type_synonym timeline = "(int \<times> moment) list"

definition default_moment :: moment where
  "default_moment = \<lparr>comments = [], total_likes = 0, representative_time = 0\<rparr>"

definition lookup_default :: "timeline \<Rightarrow> int \<Rightarrow> moment" where
  \<comment> \<open>\<^verbatim>\<open>timeline_data[k]\<close>: the stored value, or a fresh default for a new key\<close>
  "lookup_default timeline_data k =
     (case map_of timeline_data k of Some m \<Rightarrow> m | None \<Rightarrow> default_moment)"

definition list_sort_reverse :: "('a \<Rightarrow> 'b::linorder) \<Rightarrow> 'a list \<Rightarrow> 'a list" where
  \<comment> \<open>\<^verbatim>\<open>xs.sort(key=key, reverse=True)\<close> and \<^verbatim>\<open>sorted(xs, key=key, reverse=True)\<close>: the
      list is reversed, sorted stably in ascending order and reversed again\<close>
  "list_sort_reverse key xs = rev (sort_key key (rev xs))"

fun notna_rows :: "row list \<Rightarrow> (int \<times> row) list" where
  \<comment> \<open>\<^verbatim>\<open>df[df['timestamp'].notna()]\<close>: each remaining row with the value of its timestamp\<close>
  "notna_rows [] = []"
| "notna_rows (r # df) =
     (case timestamp r of
        None \<Rightarrow> notna_rows df
      | Some t \<Rightarrow> (t, r) # notna_rows df)"

text \<open>
  \<^verbatim>\<open>sort_values\<close> belongs to the data-frame library, not to the repository, and the call
  leaves the algorithm at the library's default, which does not promise an order among
  rows of equal timestamp. The sort is therefore a parameter of the aggregation. What is
  required of it is what the library promises: the result is in ascending order of
  timestamp and holds the same rows.
\<close>

type_synonym frame_sort = "(int \<times> row) list \<Rightarrow> (int \<times> row) list"

definition sorts_by_timestamp :: "frame_sort \<Rightarrow> bool" where
  "sorts_by_timestamp sort_values =
     (\<forall>rows. sorted (map fst (sort_values rows)) \<and> mset (sort_values rows) = mset rows)"

definition next_group :: "int option \<Rightarrow> int \<Rightarrow> int" where
  \<comment> \<open>\<^verbatim>\<open>if current_group is None or abs(timestamp - current_group) > 5:
            current_group = timestamp\<close>\<close>
  "next_group current_group ts =
     (case current_group of
        None \<Rightarrow> ts
      | Some g \<Rightarrow> if \<bar>ts - g\<bar> > 5 then ts else g)"

fun group_row :: "int option \<times> timeline \<Rightarrow> int \<times> row \<Rightarrow> int option \<times> timeline" where
  \<comment> \<open>one iteration of the loop of \<^verbatim>\<open>das.py\<close>, on the state
      \<^verbatim>\<open>(current_group, timeline_data)\<close>\<close>
  "group_row (current_group, timeline_data) (ts, r) =
     (let g = next_group current_group ts;
          m = lookup_default timeline_data g;
          m = m\<lparr>comments := comments m @ [r]\<rparr>;
          m = m\<lparr>total_likes := total_likes m + likeCount r\<rparr>;
          m = m\<lparr>representative_time := g\<rparr>;
          m = m\<lparr>comments := list_sort_reverse likeCount (comments m)\<rparr>
      in (Some g, AList.update g m timeline_data))"

definition aggregate_timeline_comments :: "frame_sort \<Rightarrow> row list \<Rightarrow> timeline" where
  \<comment> \<open>\<^verbatim>\<open>das.py\<close>\<close>
  "aggregate_timeline_comments sort_values df =
     (let timestamp_comments = notna_rows df in
      if length timestamp_comments = 0 then []
      else snd (foldl group_row (None, []) (sort_values timestamp_comments)))"

fun group_row_mainpage ::
  "int option \<times> timeline \<Rightarrow> int \<times> row \<Rightarrow> int option \<times> timeline" where
  \<comment> \<open>one iteration of the loop of \<^verbatim>\<open>das-mainpage.py\<close>, which does not sort the group\<close>
  "group_row_mainpage (current_group, timeline_data) (ts, r) =
     (let g = next_group current_group ts;
          m = lookup_default timeline_data g;
          m = m\<lparr>comments := comments m @ [r]\<rparr>;
          m = m\<lparr>total_likes := total_likes m + likeCount r\<rparr>;
          m = m\<lparr>representative_time := g\<rparr>
      in (Some g, AList.update g m timeline_data))"

definition aggregate_timeline_comments_mainpage :: "frame_sort \<Rightarrow> row list \<Rightarrow> timeline" where
  \<comment> \<open>\<^verbatim>\<open>das-mainpage.py\<close>\<close>
  "aggregate_timeline_comments_mainpage sort_values df =
     (let timestamp_comments = notna_rows df in
      if length timestamp_comments = 0 then []
      else snd (foldl group_row_mainpage (None, []) (sort_values timestamp_comments)))"

definition displayed_moments :: "timeline \<Rightarrow> timeline" where
  \<comment> \<open>\<^verbatim>\<open>sorted(timeline_data.items(), key=lambda x: x[1]['total_likes'], reverse=True)[:10]\<close>,
      in \<^verbatim>\<open>display_timeline_moments\<close> (\<^verbatim>\<open>das.py\<close>) and \<^verbatim>\<open>process_video\<close>
      (\<^verbatim>\<open>das-mainpage.py\<close>)\<close>
  "displayed_moments timeline_data =
     take 10 (list_sort_reverse (\<lambda>x. total_likes (snd x)) timeline_data)"

definition comment_record :: "string \<Rightarrow> string \<Rightarrow> int \<Rightarrow> string \<Rightarrow> row" where
  \<comment> \<open>the dictionary \<^verbatim>\<open>get_comments\<close> appends for one comment, before the timestamp column
      exists\<close>
  "comment_record txt author likes published =
     \<lparr>comment_text = txt, authorDisplayName = author, likeCount = likes,
      publishedAt = published, timestamp = None\<rparr>"

definition apply_parse_timestamp :: "row list \<Rightarrow> row list" where
  \<comment> \<open>\<^verbatim>\<open>comments_df['timestamp'] = comments_df['text'].apply(parse_timestamp)\<close>\<close>
  "apply_parse_timestamp df =
     map (\<lambda>r. r\<lparr>timestamp := parse_timestamp (comment_text r)\<rparr>) df"

subsection \<open>Notions used to state the properties\<close>

text \<open>
  The rows of a sorted frame whose timestamp lies in the window from \<open>k\<close> to \<open>k + 5\<close>, in
  the order of the frame.
\<close>

definition rows_within :: "int \<Rightarrow> (int \<times> row) list \<Rightarrow> row list" where
  "rows_within k rows = map snd (filter (\<lambda>(t, r). k \<le> t \<and> t \<le> k + 5) rows)"

text \<open>Sorting the members of one entry of the timeline by likes, as \<^verbatim>\<open>das.py\<close> does.\<close>

definition sort_members :: "int \<times> moment \<Rightarrow> int \<times> moment" where
  "sort_members = (\<lambda>(k, m). (k, m\<lparr>comments := list_sort_reverse likeCount (comments m)\<rparr>))"

text \<open>
  The invariant of the loop of \<^verbatim>\<open>das-mainpage.py\<close> after the rows \<open>xs\<close> of the sorted frame:
  the current group is the largest key and lies at most 5 below the last timestamp, the
  keys ascend in steps of more than 5, and the group of key \<open>k\<close> holds the rows of \<open>xs\<close>
  in the window of \<open>k\<close>.
\<close>

definition walk_inv :: "(int \<times> row) list \<Rightarrow> int option \<times> timeline \<Rightarrow> bool" where
  "walk_inv xs st =
     (case st of (cg, td) \<Rightarrow>
        (xs = [] \<longrightarrow> cg = None \<and> td = []) \<and>
        (xs \<noteq> [] \<longrightarrow>
           (\<exists>g. cg = Some g \<and> g \<in> set (map fst td) \<and> (\<forall>k\<in>set (map fst td). k \<le> g) \<and>
                g \<le> fst (last xs) \<and> fst (last xs) \<le> g + 5)) \<and>
        sorted_wrt (\<lambda>a b. a + 5 < b) (map fst td) \<and>
        (\<forall>(k, m)\<in>set td.
           comments m = rows_within k xs \<and> comments m \<noteq> [] \<and> representative_time m = k \<and>
           total_likes m = sum_list (map likeCount (comments m))))"

section \<open>Properties of the extraction\<close>

lemma re_seq_iff:
  "(m, r) \<in> set (re_seq p q s) \<longleftrightarrow>
     (\<exists>m1 r1 m2. (m1, r1) \<in> set (p s) \<and> (m2, r) \<in> set (q r1) \<and> m = m1 @ m2)"
  by (force simp: re_seq_def)

lemma re_opt_iff:
  "(m, r) \<in> set (re_opt p s) \<longleftrightarrow> (m, r) \<in> set (p s) \<or> (m = [] \<and> r = s)"
  by (auto simp: re_opt_def)

lemma re_digit_iff:
  "(m, r) \<in> set (re_digit s) \<longleftrightarrow> (\<exists>c. is_digit c \<and> m = [c] \<and> s = c # r)"
  by (auto simp: re_digit_def split: list.splits)

lemma re_char_iff:
  "(m, r) \<in> set (re_char x s) \<longleftrightarrow> (m = [x] \<and> s = x # r)"
  by (auto simp: re_char_def split: list.splits)

lemma re_digit_1_2_digits:
  "(m, r) \<in> set (re_digit_1_2 s) \<Longrightarrow> digits m"
  by (auto simp: re_digit_1_2_def re_seq_iff re_opt_iff re_digit_iff digits_def)

lemma re_digit_2_digits:
  "(m, r) \<in> set (re_digit_2 s) \<Longrightarrow> digits m"
  by (auto simp: re_digit_2_def re_seq_iff re_digit_iff digits_def)

lemma hours_group_shape:
  assumes "(m, r) \<in> set (re_seq re_digit_1_2 (re_char CHR '':'') s)"
  shows "\<exists>h. digits h \<and> m = h @ [CHR '':'']"
proof -
  from assms obtain m1 r1 m2 where
    "(m1, r1) \<in> set (re_digit_1_2 s)" "(m2, r) \<in> set (re_char CHR '':'' r1)" "m = m1 @ m2"
    unfolding re_seq_iff by blast
  then show ?thesis
    by (auto simp: re_char_iff dest: re_digit_1_2_digits)
qed

lemma minutes_seconds_shape:
  assumes "(m, r) \<in> set (re_seq re_digit_1_2 (re_seq (re_char CHR '':'') re_digit_2) s)"
  shows "\<exists>a b. digits a \<and> digits b \<and> m = a @ CHR '':'' # b"
proof -
  from assms obtain m1 r1 m2 where
    1: "(m1, r1) \<in> set (re_digit_1_2 s)" and
    2: "(m2, r) \<in> set (re_seq (re_char CHR '':'') re_digit_2 r1)" and
    3: "m = m1 @ m2"
    unfolding re_seq_iff by blast
  from 2 obtain m3 r3 m4 where
    4: "(m3, r3) \<in> set (re_char CHR '':'' r1)" and
    5: "(m4, r) \<in> set (re_digit_2 r3)" and
    6: "m2 = m3 @ m4"
    unfolding re_seq_iff by blast
  from 4 have "m3 = [CHR '':'']" by (simp add: re_char_iff)
  with 3 6 have "m = m1 @ CHR '':'' # m4" by simp
  with 1 5 show ?thesis
    by (blast dest: re_digit_1_2_digits re_digit_2_digits)
qed

lemma timestamp_pattern_shape:
  assumes "(m, r) \<in> set (timestamp_pattern s)"
  shows "(\<exists>a b. digits a \<and> digits b \<and> m = a @ CHR '':'' # b) \<or>
         (\<exists>h a b. digits h \<and> digits a \<and> digits b \<and> m = h @ CHR '':'' # a @ CHR '':'' # b)"
proof -
  from assms obtain m1 r1 m2 where
    1: "(m1, r1) \<in> set (re_opt (re_seq re_digit_1_2 (re_char CHR '':'')) s)" and
    2: "(m2, r) \<in> set (re_seq re_digit_1_2 (re_seq (re_char CHR '':'') re_digit_2) r1)" and
    3: "m = m1 @ m2"
    unfolding timestamp_pattern_def re_seq_iff [of m r] by blast
  from minutes_seconds_shape [OF 2] obtain a b where
    ab: "digits a" "digits b" "m2 = a @ CHR '':'' # b" by blast
  from 1 consider "m1 = []" | "(m1, r1) \<in> set (re_seq re_digit_1_2 (re_char CHR '':'') s)"
    unfolding re_opt_iff by blast
  then show ?thesis
  proof cases
    case 1
    with 3 ab have "m = a @ CHR '':'' # b" by simp
    with ab show ?thesis by blast
  next
    case 2
    from hours_group_shape [OF this] obtain h where h: "digits h" "m1 = h @ [CHR '':'']" by blast
    with 3 ab have "m = h @ CHR '':'' # a @ CHR '':'' # b" by simp
    with h ab show ?thesis by blast
  qed
qed

lemma re_match_Some: "re_match p s = Some m \<Longrightarrow> \<exists>r. (m, r) \<in> set (p s)"
  by (auto simp: re_match_def split: list.splits)

lemma re_search_Some: "re_search p s = Some m \<Longrightarrow> \<exists>s' r. (m, r) \<in> set (p s')"
proof (induction s)
  case Nil
  then have "re_match p [] = Some m" by simp
  from re_match_Some [OF this] show ?case by blast
next
  case (Cons c cs)
  show ?case
  proof (cases "re_match p (c # cs)")
    case None
    with Cons show ?thesis by simp
  next
    case (Some m')
    with Cons.prems have "re_match p (c # cs) = Some m" by simp
    from re_match_Some [OF this] show ?thesis by blast
  qed
qed

lemma is_digit_not_colon: "is_digit c \<Longrightarrow> c \<noteq> CHR '':''"
  by (auto simp: is_digit_def)

lemma str_split_nonempty: "str_split sep s \<noteq> []"
  by (induction s) (auto split: list.splits)

lemma str_split_digits_append:
  "list_all is_digit a \<Longrightarrow> str_split CHR '':'' (a @ CHR '':'' # rest) = a # str_split CHR '':'' rest"
  by (induction a) (auto dest: is_digit_not_colon)

lemma str_split_digits:
  "list_all is_digit a \<Longrightarrow> str_split CHR '':'' a = [a]"
  by (induction a) (auto dest: is_digit_not_colon)

lemma py_int_digits: "digits s \<Longrightarrow> py_int s = Inr (decimal s)"
  by (simp add: py_int_def digits_def)

lemma split_match:
  assumes "re_search timestamp_pattern text = Some m"
  shows "(\<exists>a b. digits a \<and> digits b \<and> str_split CHR '':'' m = [a, b]) \<or>
         (\<exists>h a b. digits h \<and> digits a \<and> digits b \<and> str_split CHR '':'' m = [h, a, b])"
proof -
  from assms obtain s r where "(m, r) \<in> set (timestamp_pattern s)"
    by (blast dest: re_search_Some)
  from timestamp_pattern_shape [OF this] show ?thesis
    by (auto simp: digits_def str_split_digits_append str_split_digits)
qed

lemma parse_timestamp_try_two:
  assumes "re_search timestamp_pattern text = Some m" "str_split CHR '':'' m = [mm, ss]"
  shows "parse_timestamp_try text = Inr (Some (decimal mm * 60 + decimal ss))"
  using split_match [OF assms(1)] assms
  by (auto simp: parse_timestamp_try_def py_int_digits)

lemma parse_timestamp_try_three:
  assumes "re_search timestamp_pattern text = Some m" "str_split CHR '':'' m = [hh, mm, ss]"
  shows "parse_timestamp_try text = Inr (Some (decimal hh * 3600 + decimal mm * 60 + decimal ss))"
  using split_match [OF assms(1)] assms
  by (auto simp: parse_timestamp_try_def py_int_digits)

lemma parse_timestamp_try_None:
  "re_search timestamp_pattern text = None \<Longrightarrow> parse_timestamp_try text = Inr None"
  by (simp add: parse_timestamp_try_def)

lemma parse_timestamp_try_total:
  "\<exists>r. parse_timestamp_try text = Inr r \<and> (r = None \<longleftrightarrow> re_search timestamp_pattern text = None)"
proof (cases "re_search timestamp_pattern text")
  case None
  then show ?thesis by (simp add: parse_timestamp_try_None)
next
  case (Some m)
  from split_match [OF Some] show ?thesis
    using Some by (auto simp: parse_timestamp_try_two parse_timestamp_try_three)
qed

lemmas matcher_defs =
  timestamp_pattern_def re_seq_def re_opt_def re_digit_def re_char_def re_match_def
  re_digit_1_2_def re_digit_2_def is_digit_def

lemmas parse_defs =
  parse_timestamp_def parse_timestamp_try_def py_int_def decimal_def digit_value_def

lemma parse_timestamp_two:
  assumes "re_search timestamp_pattern text = Some m" "str_split CHR '':'' m = [mm, ss]"
  shows "parse_timestamp text = Some (decimal mm * 60 + decimal ss)"
  by (simp add: parse_timestamp_def parse_timestamp_try_two [OF assms])

lemma parse_timestamp_three:
  assumes "re_search timestamp_pattern text = Some m" "str_split CHR '':'' m = [hh, mm, ss]"
  shows "parse_timestamp text = Some (decimal hh * 3600 + decimal mm * 60 + decimal ss)"
  by (simp add: parse_timestamp_def parse_timestamp_try_three [OF assms])

text \<open>
  C4. Where the leftmost match of the pattern splits into two fields, the result is
  minutes * 60 + seconds; where it splits into three, the result is
  hours * 3600 + minutes * 60 + seconds, each field read as a decimal number.
  \<^verbatim>\<open>"great scene at 1:05:30"\<close> gives 3930 and \<^verbatim>\<open>"lol at 2:15"\<close> gives 135.
\<close>

theorem parse_timestamp_seconds:
  "(re_search timestamp_pattern text2 = Some m2 \<and> str_split CHR '':'' m2 = [mm2, ss2] \<longrightarrow>
      parse_timestamp text2 = Some (decimal mm2 * 60 + decimal ss2)) \<and>
   (re_search timestamp_pattern text3 = Some m3 \<and> str_split CHR '':'' m3 = [hh3, mm3, ss3] \<longrightarrow>
      parse_timestamp text3 = Some (decimal hh3 * 3600 + decimal mm3 * 60 + decimal ss3)) \<and>
   parse_timestamp ''great scene at 1:05:30'' = Some 3930 \<and>
   parse_timestamp ''lol at 2:15'' = Some 135"
proof (intro conjI impI)
  show "parse_timestamp ''great scene at 1:05:30'' = Some 3930"
    by (simp add: parse_defs matcher_defs)
  show "parse_timestamp ''lol at 2:15'' = Some 135"
    by (simp add: parse_defs matcher_defs)
qed (auto intro: parse_timestamp_two parse_timestamp_three)

theorem parse_timestamp_seconds_witness:
  "re_search timestamp_pattern ''see 12:07 then'' = Some ''12:07'' \<and>
   str_split CHR '':'' ''12:07'' = [''12'', ''07''] \<and>
   parse_timestamp ''see 12:07 then'' = Some (12 * 60 + 7) \<and>
   re_search timestamp_pattern ''at 2:03:04!'' = Some ''2:03:04'' \<and>
   str_split CHR '':'' ''2:03:04'' = [''2'', ''03'', ''04''] \<and>
   parse_timestamp ''at 2:03:04!'' = Some (2 * 3600 + 3 * 60 + 4)"
proof -
  have a: "re_search timestamp_pattern ''see 12:07 then'' = Some ''12:07''"
    by (simp add: matcher_defs)
  have b: "str_split CHR '':'' ''12:07'' = [''12'', ''07'']"
    by simp
  have c: "re_search timestamp_pattern ''at 2:03:04!'' = Some ''2:03:04''"
    by (simp add: matcher_defs)
  have d: "str_split CHR '':'' ''2:03:04'' = [''2'', ''03'', ''04'']"
    by simp
  have e: "decimal ''12'' = 12" "decimal ''07'' = 7" "decimal ''2'' = 2"
    "decimal ''03'' = 3" "decimal ''04'' = 4"
    by (simp_all add: decimal_def digit_value_def)
  from parse_timestamp_seconds [where ?text2.0 = "''see 12:07 then'' " and ?m2.0 = "''12:07''"
      and ?mm2.0 = "''12''" and ?ss2.0 = "''07''" and ?text3.0 = "''at 2:03:04!''"
      and ?m3.0 = "''2:03:04''" and ?hh3.0 = "''2''" and ?mm3.0 = "''03''" and ?ss3.0 = "''04''"]
    a b c d e
  show ?thesis by simp
qed

text \<open>
  C8. Without a match of the pattern the result is \<open>None\<close>. The handler turns every
  exception of the \<^verbatim>\<open>try\<close> block into \<open>None\<close>, so nothing is raised to the caller; in
  fact the block raises nothing on any string, since every field of a match is a run of
  digits, and the result is \<open>None\<close> only when nothing matched.
\<close>

theorem parse_timestamp_absent:
  "(re_search timestamp_pattern text = None \<longrightarrow> parse_timestamp text = None) \<and>
   (\<exists>r. parse_timestamp_try text = Inr r \<and> parse_timestamp text = r) \<and>
   (parse_timestamp text = None \<longrightarrow> re_search timestamp_pattern text = None) \<and>
   parse_timestamp ''no timestamp here'' = None"
proof -
  obtain r where r: "parse_timestamp_try text = Inr r"
    "r = None \<longleftrightarrow> re_search timestamp_pattern text = None"
    using parse_timestamp_try_total by blast
  then have "parse_timestamp text = r"
    by (simp add: parse_timestamp_def)
  moreover have "parse_timestamp ''no timestamp here'' = None"
    by (simp add: parse_defs matcher_defs)
  ultimately show ?thesis using r by simp
qed

theorem parse_timestamp_absent_witness:
  "re_search timestamp_pattern ''call me at 5pm: ok'' = None \<and>
   parse_timestamp ''call me at 5pm: ok'' = None \<and>
   parse_timestamp_try ''call me at 5pm: ok'' = Inr None"
proof -
  have "re_search timestamp_pattern ''call me at 5pm: ok'' = None"
    by (simp add: matcher_defs)
  with parse_timestamp_absent [of "''call me at 5pm: ok''"] show ?thesis by auto
qed

text \<open>
  C10. The fields of a match are not checked against 60: a minutes or seconds field of
  60 or more still gives minutes * 60 + seconds (with hours * 3600 for three fields).
  \<^verbatim>\<open>"90:99"\<close> gives 5499.
\<close>

theorem parse_timestamp_no_range_check:
  "(re_search timestamp_pattern text2 = Some m2 \<and> str_split CHR '':'' m2 = [mm2, ss2] \<and>
      (60 \<le> decimal mm2 \<or> 60 \<le> decimal ss2) \<longrightarrow>
      parse_timestamp text2 = Some (decimal mm2 * 60 + decimal ss2)) \<and>
   (re_search timestamp_pattern text3 = Some m3 \<and> str_split CHR '':'' m3 = [hh3, mm3, ss3] \<and>
      (60 \<le> decimal mm3 \<or> 60 \<le> decimal ss3) \<longrightarrow>
      parse_timestamp text3 = Some (decimal hh3 * 3600 + decimal mm3 * 60 + decimal ss3)) \<and>
   parse_timestamp ''90:99'' = Some 5499"
proof (intro conjI impI)
  show "parse_timestamp ''90:99'' = Some 5499"
    by (simp add: parse_defs matcher_defs)
qed (auto intro: parse_timestamp_two parse_timestamp_three)

theorem parse_timestamp_no_range_check_witness:
  "re_search timestamp_pattern ''wow 75:60'' = Some ''75:60'' \<and>
   str_split CHR '':'' ''75:60'' = [''75'', ''60''] \<and>
   (60::int) \<le> decimal ''75'' \<and>
   parse_timestamp ''wow 75:60'' = Some 4560 \<and>
   re_search timestamp_pattern ''1:02:61'' = Some ''1:02:61'' \<and>
   str_split CHR '':'' ''1:02:61'' = [''1'', ''02'', ''61''] \<and>
   (60::int) \<le> decimal ''61'' \<and>
   parse_timestamp ''1:02:61'' = Some 3781"
proof -
  have a: "re_search timestamp_pattern ''wow 75:60'' = Some ''75:60''"
    by (simp add: matcher_defs)
  have b: "str_split CHR '':'' ''75:60'' = [''75'', ''60'']"
    by simp
  have c: "re_search timestamp_pattern ''1:02:61'' = Some ''1:02:61''"
    by (simp add: matcher_defs)
  have d: "str_split CHR '':'' ''1:02:61'' = [''1'', ''02'', ''61'']"
    by simp
  have e: "decimal ''75'' = 75" "decimal ''60'' = 60" "decimal ''1'' = 1"
    "decimal ''02'' = 2" "decimal ''61'' = 61"
    by (simp_all add: decimal_def digit_value_def)
  from parse_timestamp_no_range_check [where ?text2.0 = "''wow 75:60''" and ?m2.0 = "''75:60''"
      and ?mm2.0 = "''75''" and ?ss2.0 = "''60''" and ?text3.0 = "''1:02:61''"
      and ?m3.0 = "''1:02:61''" and ?hh3.0 = "''1''" and ?mm3.0 = "''02''" and ?ss3.0 = "''61''"]
    a b c d e
  show ?thesis by simp
qed

section \<open>Properties of the aggregation\<close>

subsection \<open>Sorting in descending order\<close>

lemma mset_list_sort_reverse [simp]: "mset (list_sort_reverse f xs) = mset xs"
  by (simp add: list_sort_reverse_def)

lemma set_list_sort_reverse [simp]: "set (list_sort_reverse f xs) = set xs"
  by (simp add: list_sort_reverse_def)

lemma length_list_sort_reverse [simp]: "length (list_sort_reverse f xs) = length xs"
  by (simp add: list_sort_reverse_def)

lemma list_sort_reverse_Nil [simp]: "list_sort_reverse f [] = []"
  by (simp add: list_sort_reverse_def)

lemma list_sort_reverse_descending: "sorted (rev (map f (list_sort_reverse f xs)))"
  by (simp add: list_sort_reverse_def rev_map)

lemma list_sort_reverse_stable:
  "filter (\<lambda>y. f y = v) (list_sort_reverse f xs) = filter (\<lambda>y. f y = v) xs"
proof -
  have "filter (\<lambda>y. f y = v) (list_sort_reverse f xs)
        = rev (filter (\<lambda>y. f y = v) (sort_key f (rev xs)))"
    by (simp add: list_sort_reverse_def rev_filter)
  also have "\<dots> = rev (filter (\<lambda>y. f y = v) (rev xs))"
    by (simp only: sort_key_stable)
  also have "\<dots> = filter (\<lambda>y. f y = v) xs"
    by (simp add: rev_filter)
  finally show ?thesis .
qed

lemma list_sort_reverse_absorb:
  "list_sort_reverse f (list_sort_reverse f xs @ [x]) = list_sort_reverse f (xs @ [x])"
proof -
  have "sort_key f (sort_key f (rev xs)) = sort_key f (rev xs)"
    by (rule sort_key_id_if_sorted) simp
  then show ?thesis
    by (simp add: list_sort_reverse_def)
qed

subsection \<open>The loop of \<^verbatim>\<open>das.py\<close> against the loop of \<^verbatim>\<open>das-mainpage.py\<close>\<close>

lemma lookup_default_sort_members:
  "lookup_default (map sort_members td) g =
     (lookup_default td g)\<lparr>comments := list_sort_reverse likeCount (comments (lookup_default td g))\<rparr>"
proof -
  have "map_of (map sort_members td) g =
        map_option (\<lambda>m. m\<lparr>comments := list_sort_reverse likeCount (comments m)\<rparr>) (map_of td g)"
    by (induction td) (auto simp: sort_members_def)
  then show ?thesis
    by (simp add: lookup_default_def default_moment_def split: option.splits)
qed

lemma update_sort_members:
  "AList.update g (m\<lparr>comments := list_sort_reverse likeCount (comments m)\<rparr>)
     (map sort_members td) = map sort_members (AList.update g m td)"
  by (induction td) (auto simp: sort_members_def)

lemma group_row_sort_members:
  "group_row (cg, map sort_members td) x =
     (case group_row_mainpage (cg, td) x of (c, t) \<Rightarrow> (c, map sort_members t))"
proof (cases x)
  case (Pair ts r)
  obtain c t rt where m:
    "lookup_default td (next_group cg ts) =
       \<lparr>comments = c, total_likes = t, representative_time = rt\<rparr>"
    by (cases "lookup_default td (next_group cg ts)")
  show ?thesis
    using update_sort_members [of "next_group cg ts"
        "\<lparr>comments = c @ [r], total_likes = t + likeCount r,
          representative_time = next_group cg ts\<rparr>" td]
    by (simp add: Pair lookup_default_sort_members Let_def m list_sort_reverse_absorb)
qed

lemma foldl_group_row_sort_members:
  "foldl group_row (cg, map sort_members td) xs =
     (case foldl group_row_mainpage (cg, td) xs of (c, t) \<Rightarrow> (c, map sort_members t))"
proof (induction xs arbitrary: cg td)
  case Nil
  then show ?case by simp
next
  case (Cons x xs)
  obtain c t where ct: "group_row_mainpage (cg, td) x = (c, t)"
    by (cases "group_row_mainpage (cg, td) x")
  then have "group_row (cg, map sort_members td) x = (c, map sort_members t)"
    by (simp add: group_row_sort_members)
  with ct Cons.IH [of c t] show ?case by simp
qed

lemma aggregate_sort_members:
  "aggregate_timeline_comments sv df = map sort_members (aggregate_timeline_comments_mainpage sv df)"
  using foldl_group_row_sort_members [of None "[]" "sv (notna_rows df)"]
  by (simp add: aggregate_timeline_comments_def aggregate_timeline_comments_mainpage_def
      Let_def split: prod.splits)

subsection \<open>The invariant of the loop\<close>

lemma gap_sorted_distinct: "sorted_wrt (\<lambda>a b. a + 5 < b) ks \<Longrightarrow> distinct (ks::int list)"
  by (induction ks) auto

lemma gap_sorted_less:
  "sorted_wrt (\<lambda>a b. a + 5 < b) ks \<Longrightarrow> a \<in> set ks \<Longrightarrow> b \<in> set ks \<Longrightarrow> a < b
   \<Longrightarrow> a + 5 < (b::int)"
  by (induction ks) force+

lemma set_update_distinct:
  "distinct (map fst al) \<Longrightarrow>
   set (AList.update k v al) = insert (k, v) {p \<in> set al. fst p \<noteq> k}"
  by (induction al) force+

lemma update_fresh: "k \<notin> set (map fst al) \<Longrightarrow> AList.update k v al = al @ [(k, v)]"
  by (induction al) auto

lemma lookup_default_fresh: "k \<notin> set (map fst al) \<Longrightarrow> lookup_default al k = default_moment"
  by (simp add: lookup_default_def map_of_eq_None_iff [THEN iffD2])

lemma lookup_default_present:
  "distinct (map fst al) \<Longrightarrow> (k, m) \<in> set al \<Longrightarrow> lookup_default al k = m"
  by (simp add: lookup_default_def)

lemma rows_within_Nil [simp]: "rows_within k [] = []"
  by (simp add: rows_within_def)

lemma rows_within_snoc:
  "rows_within k (xs @ [(ts, r)]) =
     (if k \<le> ts \<and> ts \<le> k + 5 then rows_within k xs @ [r] else rows_within k xs)"
  by (simp add: rows_within_def)

lemma rows_within_below: "\<forall>p\<in>set xs. fst p < k \<Longrightarrow> rows_within k xs = []"
  by (induction xs) (auto simp: rows_within_def)

lemma sorted_le_last:
  "sorted (map fst xs) \<Longrightarrow> p \<in> set xs \<Longrightarrow> fst p \<le> fst (last (xs :: (int \<times> 'a) list))"
  by (induction xs) (auto split: if_splits)

lemma walk_inv_unfold:
  "walk_inv xs (cg, td) \<longleftrightarrow>
     (xs = [] \<longrightarrow> cg = None \<and> td = []) \<and>
     (xs \<noteq> [] \<longrightarrow>
        (\<exists>g. cg = Some g \<and> g \<in> set (map fst td) \<and> (\<forall>k\<in>set (map fst td). k \<le> g) \<and>
             g \<le> fst (last xs) \<and> fst (last xs) \<le> g + 5)) \<and>
     sorted_wrt (\<lambda>a b. a + 5 < b) (map fst td) \<and>
     (\<forall>(k, m)\<in>set td.
        comments m = rows_within k xs \<and> comments m \<noteq> [] \<and> representative_time m = k \<and>
        total_likes m = sum_list (map likeCount (comments m)))"
  by (simp add: walk_inv_def)

lemma walk_inv_first:
  "walk_inv [(ts, r)] (group_row_mainpage (None, []) (ts, r))"
  by (simp add: walk_inv_unfold next_group_def lookup_default_def default_moment_def
      rows_within_def)

lemma walk_inv_open:
  assumes inv: "walk_inv xs (Some g, td)" and ne: "xs \<noteq> []"
    and srt: "sorted (map fst (xs @ [(ts, r)]))" and far: "\<bar>ts - g\<bar> > 5"
  shows "walk_inv (xs @ [(ts, r)]) (group_row_mainpage (Some g, td) (ts, r))"
proof -
  from inv ne have g: "g \<in> set (map fst td)" "\<forall>k\<in>set (map fst td). k \<le> g"
    "g \<le> fst (last xs)" "fst (last xs) \<le> g + 5"
    and gap: "sorted_wrt (\<lambda>a b. a + 5 < b) (map fst td)"
    and el: "\<forall>(k, m)\<in>set td.
        comments m = rows_within k xs \<and> comments m \<noteq> [] \<and> representative_time m = k \<and>
        total_likes m = sum_list (map likeCount (comments m))"
    by (simp_all add: walk_inv_unfold)
  from srt have sx: "sorted (map fst xs)" and le: "\<forall>p\<in>set xs. fst p \<le> ts"
    by (auto simp: sorted_append)
  from ne le have "fst (last xs) \<le> ts" by simp
  with g far have big: "g + 5 < ts" by linarith
  have below: "\<forall>p\<in>set xs. fst p < ts"
    using sorted_le_last [OF sx] g(4) big by fastforce
  have fresh: "ts \<notin> set (map fst td)"
    using g(2) big by fastforce
  have ng: "next_group (Some g) ts = ts"
    using far by (simp add: next_group_def)
  define m where "m = \<lparr>comments = [r], total_likes = likeCount r, representative_time = ts\<rparr>"
  have step: "group_row_mainpage (Some g, td) (ts, r) = (Some ts, td @ [(ts, m)])"
    by (simp add: ng lookup_default_fresh [OF fresh] update_fresh [OF fresh] default_moment_def
        m_def)
  have old: "rows_within k (xs @ [(ts, r)]) = rows_within k xs" if "(k, m') \<in> set td" for k m'
  proof -
    from that have "k \<in> set (map fst td)" by force
    with g(2) have "k \<le> g" by blast
    with big show ?thesis by (simp add: rows_within_snoc)
  qed
  have new: "rows_within ts (xs @ [(ts, r)]) = [r]"
    by (simp add: rows_within_snoc rows_within_below [OF below])
  have keys: "sorted_wrt (\<lambda>a b. a + 5 < b) (map fst td @ [ts])"
    using gap g(2) big by (fastforce simp: sorted_wrt_append)
  have top: "\<forall>k\<in>set (map fst td). k \<le> ts"
    using g(2) big by fastforce
  show ?thesis
    unfolding step walk_inv_unfold
    using el keys top old new by (auto simp: m_def)
qed

lemma walk_inv_join:
  assumes inv: "walk_inv xs (Some g, td)" and ne: "xs \<noteq> []"
    and srt: "sorted (map fst (xs @ [(ts, r)]))" and near: "\<not> \<bar>ts - g\<bar> > 5"
  shows "walk_inv (xs @ [(ts, r)]) (group_row_mainpage (Some g, td) (ts, r))"
proof -
  from inv ne have g: "g \<in> set (map fst td)" "\<forall>k\<in>set (map fst td). k \<le> g"
    "g \<le> fst (last xs)" "fst (last xs) \<le> g + 5"
    and gap: "sorted_wrt (\<lambda>a b. a + 5 < b) (map fst td)"
    and el: "\<forall>(k, m)\<in>set td.
        comments m = rows_within k xs \<and> comments m \<noteq> [] \<and> representative_time m = k \<and>
        total_likes m = sum_list (map likeCount (comments m))"
    by (simp_all add: walk_inv_unfold)
  from srt have le: "\<forall>p\<in>set xs. fst p \<le> ts"
    by (auto simp: sorted_append)
  from ne le have "fst (last xs) \<le> ts" by simp
  with g near have rng: "g \<le> ts" "ts \<le> g + 5" by linarith+
  have dist: "distinct (map fst td)"
    by (rule gap_sorted_distinct [OF gap])
  from g(1) obtain m0 where m0: "(g, m0) \<in> set td" by force
  have ng: "next_group (Some g) ts = g"
    using near by (simp add: next_group_def)
  define m where "m = m0\<lparr>comments := comments m0 @ [r],
    total_likes := total_likes m0 + likeCount r, representative_time := g\<rparr>"
  have step: "group_row_mainpage (Some g, td) (ts, r) = (Some g, AList.update g m td)"
    by (simp add: ng lookup_default_present [OF dist m0] m_def)
  have keys: "map fst (AList.update g m td) = map fst td"
    using g(1) by (simp add: update_keys)
  have elems: "set (AList.update g m td) = insert (g, m) {p \<in> set td. fst p \<noteq> g}"
    by (rule set_update_distinct [OF dist])
  have old: "rows_within k (xs @ [(ts, r)]) = rows_within k xs"
    if "(k, m') \<in> set td" "k \<noteq> g" for k m'
  proof -
    from that have k: "k \<in> set (map fst td)" by force
    with g(2) that have "k < g" by force
    from gap_sorted_less [OF gap k g(1) this] rng show ?thesis
      by (simp add: rows_within_snoc)
  qed
  from el m0 have m0': "comments m0 = rows_within g xs"
    "total_likes m0 = sum_list (map likeCount (comments m0))" by auto
  have new: "comments m = rows_within g (xs @ [(ts, r)])" "comments m \<noteq> []"
    "representative_time m = g" "total_likes m = sum_list (map likeCount (comments m))"
    using m0' rng by (simp_all add: m_def rows_within_snoc)
  show ?thesis
    unfolding step walk_inv_unfold keys elems
    using el g gap old new rng by auto
qed

lemma walk_inv_step:
  assumes inv: "walk_inv xs st" and srt: "sorted (map fst (xs @ [x]))"
  shows "walk_inv (xs @ [x]) (group_row_mainpage st x)"
proof -
  obtain cg td where st: "st = (cg, td)" by (cases st)
  obtain ts r where x: "x = (ts, r)" by (cases x)
  show ?thesis
  proof (cases "xs = []")
    case True
    with inv st have "cg = None" "td = []" by (simp_all add: walk_inv_unfold)
    with True st x show ?thesis
      by (simp add: walk_inv_first del: group_row_mainpage.simps)
  next
    case False
    with inv st obtain g where "cg = Some g" by (auto simp: walk_inv_unfold)
    with inv srt st x False show ?thesis
      by (cases "\<bar>ts - g\<bar> > 5")
        (simp_all add: walk_inv_open walk_inv_join del: group_row_mainpage.simps)
  qed
qed

lemma walk_inv_foldl:
  "sorted (map fst xs) \<Longrightarrow> walk_inv xs (foldl group_row_mainpage (None, []) xs)"
proof (induction xs rule: rev_induct)
  case Nil
  then show ?case by (simp add: walk_inv_unfold)
next
  case (snoc x xs)
  from snoc.prems have "sorted (map fst xs)" by (simp add: sorted_append)
  with snoc.IH have "walk_inv xs (foldl group_row_mainpage (None, []) xs)" .
  from walk_inv_step [OF this] snoc.prems show ?case by simp
qed

subsection \<open>The filtered and sorted frame\<close>

lemma notna_rows_timestamp: "(t, r) \<in> set (notna_rows df) \<Longrightarrow> timestamp r = Some t \<and> r \<in> set df"
  by (induction df) (auto split: option.splits)

lemma map_snd_notna_rows: "map snd (notna_rows df) = filter (\<lambda>r. timestamp r \<noteq> None) df"
  by (induction df) (auto split: option.splits)

lemma notna_rows_empty: "(\<forall>r\<in>set df. timestamp r = None) \<Longrightarrow> notna_rows df = []"
  by (induction df) auto

lemma sorts_by_timestamp_sort_key: "sorts_by_timestamp (sort_key fst)"
  by (simp add: sorts_by_timestamp_def)

lemma sorts_sorted: "sorts_by_timestamp sv \<Longrightarrow> sorted (map fst (sv xs))"
  by (simp add: sorts_by_timestamp_def)

lemma sorts_mset: "sorts_by_timestamp sv \<Longrightarrow> mset (sv xs) = mset xs"
  by (simp add: sorts_by_timestamp_def)

lemma sorts_set: "sorts_by_timestamp sv \<Longrightarrow> set (sv xs) = set xs"
  by (rule mset_eq_setD) (rule sorts_mset)

lemma sorts_Nil: "sorts_by_timestamp sv \<Longrightarrow> sv [] = []"
  using sorts_mset [of sv "[]"] by simp

lemma rows_within_member:
  "r \<in> set (rows_within k xs) \<Longrightarrow> \<exists>t. (t, r) \<in> set xs \<and> k \<le> t \<and> t \<le> k + 5"
  by (auto simp: rows_within_def)

lemma rows_within_frame:
  assumes sv: "sorts_by_timestamp sv"
    and r: "r \<in> set (rows_within k (sv (notna_rows df)))"
  shows "\<exists>t. timestamp r = Some t \<and> k \<le> t \<and> t \<le> k + 5 \<and> r \<in> set df"
proof -
  from rows_within_member [OF r] obtain t where
    "(t, r) \<in> set (sv (notna_rows df))" "k \<le> t" "t \<le> k + 5" by auto
  then have "(t, r) \<in> set (notna_rows df)" "k \<le> t" "t \<le> k + 5"
    by (simp_all add: sorts_set [OF sv])
  with notna_rows_timestamp [of t r df] show ?thesis by blast
qed

subsection \<open>The output of both aggregations\<close>

lemma aggregate_mainpage_walk:
  assumes sv: "sorts_by_timestamp sv"
  shows "aggregate_timeline_comments_mainpage sv df =
     snd (foldl group_row_mainpage (None, []) (sv (notna_rows df)))"
  by (cases "notna_rows df")
    (simp_all add: aggregate_timeline_comments_mainpage_def Let_def sorts_Nil [OF sv])

lemma aggregate_mainpage_inv:
  assumes sv: "sorts_by_timestamp sv"
  shows "walk_inv (sv (notna_rows df))
     (fst (foldl group_row_mainpage (None, []) (sv (notna_rows df))),
      aggregate_timeline_comments_mainpage sv df)"
  using walk_inv_foldl [OF sorts_sorted [OF sv, of "notna_rows df"]]
  by (simp add: aggregate_mainpage_walk [OF sv])

lemma aggregate_mainpage_keys:
  assumes sv: "sorts_by_timestamp sv"
  shows "sorted_wrt (\<lambda>a b. a + 5 < b) (map fst (aggregate_timeline_comments_mainpage sv df))"
  using aggregate_mainpage_inv [OF sv, of df] by (simp add: walk_inv_unfold)

lemma aggregate_mainpage_moment:
  assumes sv: "sorts_by_timestamp sv"
    and km: "(k, m) \<in> set (aggregate_timeline_comments_mainpage sv df)"
  shows "comments m = rows_within k (sv (notna_rows df))"
    and "comments m \<noteq> []" and "representative_time m = k"
    and "total_likes m = sum_list (map likeCount (comments m))"
  using aggregate_mainpage_inv [OF sv, of df] km by (auto simp: walk_inv_unfold)

lemma aggregate_keys:
  "map fst (aggregate_timeline_comments sv df) =
   map fst (aggregate_timeline_comments_mainpage sv df)"
  by (simp add: aggregate_sort_members sort_members_def case_prod_unfold comp_def)

lemma sum_list_likes_sort:
  "sum_list (map likeCount (list_sort_reverse likeCount xs)) = sum_list (map likeCount xs)"
proof -
  have "sum_mset (image_mset likeCount (mset (list_sort_reverse likeCount xs))) =
        sum_mset (image_mset likeCount (mset xs))" by simp
  then show ?thesis by (simp only: mset_map [symmetric] sum_mset_sum_list)
qed

lemma aggregate_moment:
  assumes sv: "sorts_by_timestamp sv"
    and km: "(k, m) \<in> set (aggregate_timeline_comments sv df)"
  shows "comments m = list_sort_reverse likeCount (rows_within k (sv (notna_rows df)))"
    and "comments m \<noteq> []" and "representative_time m = k"
    and "total_likes m = sum_list (map likeCount (comments m))"
    and "\<exists>m'. (k, m') \<in> set (aggregate_timeline_comments_mainpage sv df) \<and>
           comments m = list_sort_reverse likeCount (comments m')"
proof -
  from km obtain m' where m': "(k, m') \<in> set (aggregate_timeline_comments_mainpage sv df)"
    and m: "m = m'\<lparr>comments := list_sort_reverse likeCount (comments m')\<rparr>"
    by (auto simp: aggregate_sort_members sort_members_def)
  note mp = aggregate_mainpage_moment [OF sv m']
  show "comments m = list_sort_reverse likeCount (rows_within k (sv (notna_rows df)))"
    using m mp(1) by simp
  have "length (comments m) = length (comments m')" using m by simp
  with mp(2) show "comments m \<noteq> []" by auto
  show "representative_time m = k" using m mp(3) by simp
  show "total_likes m = sum_list (map likeCount (comments m))"
    using m mp(4) by (simp add: sum_list_likes_sort)
  show "\<exists>m'. (k, m') \<in> set (aggregate_timeline_comments_mainpage sv df) \<and>
           comments m = list_sort_reverse likeCount (comments m')"
    using m m' by auto
qed

subsection \<open>Members as a multiset\<close>

lemma members_update:
  "mset (comments m') = add_mset r (mset (comments (lookup_default al k))) \<Longrightarrow>
   mset (concat (map (\<lambda>p. comments (snd p)) (AList.update k m' al))) =
     add_mset r (mset (concat (map (\<lambda>p. comments (snd p)) al)))"
  by (induction al) (auto simp: lookup_default_def default_moment_def)

lemma members_foldl_mainpage:
  "mset (concat (map (\<lambda>p. comments (snd p)) (snd (foldl group_row_mainpage (cg, td) xs)))) =
     mset (concat (map (\<lambda>p. comments (snd p)) td)) + mset (map snd xs)"
proof (induction xs arbitrary: cg td)
  case Nil
  then show ?case by simp
next
  case (Cons x xs)
  obtain ts r where x: "x = (ts, r)" by (cases x)
  show ?case
    by (simp add: x Let_def Cons.IH members_update)
qed

lemma members_sort_members:
  "mset (concat (map (\<lambda>p. comments (snd p)) (map sort_members td))) =
   mset (concat (map (\<lambda>p. comments (snd p)) td))"
  by (induction td) (auto simp: sort_members_def)

lemma members_mainpage:
  assumes sv: "sorts_by_timestamp sv"
  shows "mset (concat (map (\<lambda>p. comments (snd p)) (aggregate_timeline_comments_mainpage sv df))) =
   mset (filter (\<lambda>r. timestamp r \<noteq> None) df)"
proof -
  have "mset (map snd (sv (notna_rows df))) = mset (map snd (notna_rows df))"
    by (simp only: mset_map sorts_mset [OF sv])
  then show ?thesis
    by (simp add: aggregate_mainpage_walk [OF sv] members_foldl_mainpage map_snd_notna_rows)
qed

lemma members_das:
  assumes sv: "sorts_by_timestamp sv"
  shows "mset (concat (map (\<lambda>p. comments (snd p)) (aggregate_timeline_comments sv df))) =
   mset (filter (\<lambda>r. timestamp r \<noteq> None) df)"
  by (simp only: aggregate_sort_members members_sort_members members_mainpage [OF sv])

subsection \<open>Moments at different positions\<close>

lemma windows_disjoint:
  assumes gap: "sorted_wrt (\<lambda>a b. a + 5 < b) (map fst td)"
    and win: "\<forall>(k, m)\<in>set td. \<forall>r\<in>set (comments m).
                \<exists>t. timestamp r = Some t \<and> k \<le> t \<and> t \<le> k + 5"
    and ij: "i < j" "j < length td"
  shows "set (comments (snd (td ! i))) \<inter> set (comments (snd (td ! j))) = {}"
proof -
  from gap ij have "map fst td ! i + 5 < map fst td ! j"
    by (simp add: sorted_wrt_iff_nth_less)
  with ij have far: "fst (td ! i) + 5 < fst (td ! j)" by simp
  have i: "(fst (td ! i), snd (td ! i)) \<in> set td" and j: "(fst (td ! j), snd (td ! j)) \<in> set td"
    using ij by simp_all
  show ?thesis
  proof (rule ccontr)
    assume "\<not> ?thesis"
    then obtain r where r: "r \<in> set (comments (snd (td ! i)))" "r \<in> set (comments (snd (td ! j)))"
      by blast
    from win i r(1) obtain t where t: "timestamp r = Some t" "t \<le> fst (td ! i) + 5" by fastforce
    from win j r(2) obtain t' where t': "timestamp r = Some t'" "fst (td ! j) \<le> t'" by fastforce
    from t t' far show False by simp
  qed
qed

subsection \<open>Members of the Moments\<close>

lemmas walk_defs =
  aggregate_timeline_comments_def aggregate_timeline_comments_mainpage_def
  next_group_def lookup_default_def default_moment_def list_sort_reverse_def

text \<open>
  C6. In the output of either aggregation, every member of a Moment has a timestamp that
  differs from the key of the Moment by at most 5, and the key is the Moment's
  \<open>representative_time\<close>. This holds for every sort of the frame by timestamp.
\<close>

theorem aggregate_members_near_anchor:
  assumes sv: "sorts_by_timestamp sv"
  shows "((k, m) \<in> set (aggregate_timeline_comments sv df) \<and> r \<in> set (comments m) \<longrightarrow>
      representative_time m = k \<and> (\<exists>t. timestamp r = Some t \<and> \<bar>t - k\<bar> \<le> 5)) \<and>
   ((k', m') \<in> set (aggregate_timeline_comments_mainpage sv df') \<and> r' \<in> set (comments m') \<longrightarrow>
      representative_time m' = k' \<and> (\<exists>t. timestamp r' = Some t \<and> \<bar>t - k'\<bar> \<le> 5))"
proof (intro conjI impI; elim conjE)
  assume km: "(k, m) \<in> set (aggregate_timeline_comments sv df)" and r: "r \<in> set (comments m)"
  from aggregate_moment(3) [OF sv km] show "representative_time m = k" .
  from r aggregate_moment(1) [OF sv km]
  have "r \<in> set (rows_within k (sv (notna_rows df)))" by simp
  from rows_within_frame [OF sv this] show "\<exists>t. timestamp r = Some t \<and> \<bar>t - k\<bar> \<le> 5"
    by auto
next
  assume km: "(k', m') \<in> set (aggregate_timeline_comments_mainpage sv df')"
    and r: "r' \<in> set (comments m')"
  from aggregate_mainpage_moment(3) [OF sv km] show "representative_time m' = k'" .
  from r aggregate_mainpage_moment(1) [OF sv km]
  have "r' \<in> set (rows_within k' (sv (notna_rows df')))" by simp
  from rows_within_frame [OF sv this] show "\<exists>t. timestamp r' = Some t \<and> \<bar>t - k'\<bar> \<le> 5"
    by auto
qed

theorem aggregate_members_near_anchor_witness:
  "(65, \<lparr>comments =
          [(comment_record ''1:10 b'' ''u2'' 7 ''d2'')\<lparr>timestamp := Some 70\<rparr>,
           (comment_record ''1:05 a'' ''u1'' 3 ''d1'')\<lparr>timestamp := Some 65\<rparr>],
        total_likes = 10, representative_time = 65\<rparr>)
     \<in> set (aggregate_timeline_comments (sort_key fst)
     (apply_parse_timestamp
     [comment_record ''1:11 c'' ''u3'' 2 ''d3'',
      comment_record ''nice video'' ''u4'' 9 ''d4'',
      comment_record ''1:05 a'' ''u1'' 3 ''d1'',
      comment_record ''1:10 b'' ''u2'' 7 ''d2''])) \<and>
   (65, \<lparr>comments =
          [(comment_record ''1:05 a'' ''u1'' 3 ''d1'')\<lparr>timestamp := Some 65\<rparr>,
           (comment_record ''1:10 b'' ''u2'' 7 ''d2'')\<lparr>timestamp := Some 70\<rparr>],
        total_likes = 10, representative_time = 65\<rparr>)
     \<in> set (aggregate_timeline_comments_mainpage (sort_key fst)
     (apply_parse_timestamp
     [comment_record ''1:11 c'' ''u3'' 2 ''d3'',
      comment_record ''nice video'' ''u4'' 9 ''d4'',
      comment_record ''1:05 a'' ''u1'' 3 ''d1'',
      comment_record ''1:10 b'' ''u2'' 7 ''d2''])) \<and>
   timestamp ((comment_record ''1:10 b'' ''u2'' 7 ''d2'')\<lparr>timestamp := Some 70\<rparr>) = Some 70 \<and>
   \<bar>70 - 65\<bar> \<le> (5::int)"
proof -
  let ?df = "apply_parse_timestamp
     [comment_record ''1:11 c'' ''u3'' 2 ''d3'',
      comment_record ''nice video'' ''u4'' 9 ''d4'',
      comment_record ''1:05 a'' ''u1'' 3 ''d1'',
      comment_record ''1:10 b'' ''u2'' 7 ''d2'']"
  let ?r = "(comment_record ''1:10 b'' ''u2'' 7 ''d2'')\<lparr>timestamp := Some 70\<rparr>"
  let ?m = "\<lparr>comments =
          [(comment_record ''1:10 b'' ''u2'' 7 ''d2'')\<lparr>timestamp := Some 70\<rparr>,
           (comment_record ''1:05 a'' ''u1'' 3 ''d1'')\<lparr>timestamp := Some 65\<rparr>],
        total_likes = 10, representative_time = 65\<rparr>"
  let ?m' = "\<lparr>comments =
          [(comment_record ''1:05 a'' ''u1'' 3 ''d1'')\<lparr>timestamp := Some 65\<rparr>,
           (comment_record ''1:10 b'' ''u2'' 7 ''d2'')\<lparr>timestamp := Some 70\<rparr>],
        total_likes = 10, representative_time = 65\<rparr>"
  have a: "aggregate_timeline_comments (sort_key fst) ?df =
      [(65, ?m), (71, \<lparr>comments =
            [(comment_record ''1:11 c'' ''u3'' 2 ''d3'')\<lparr>timestamp := Some 71\<rparr>],
          total_likes = 2, representative_time = 71\<rparr>)]"
    by (simp add: apply_parse_timestamp_def comment_record_def parse_defs matcher_defs walk_defs)
  have b: "aggregate_timeline_comments_mainpage (sort_key fst) ?df =
      [(65, ?m'), (71, \<lparr>comments =
            [(comment_record ''1:11 c'' ''u3'' 2 ''d3'')\<lparr>timestamp := Some 71\<rparr>],
          total_likes = 2, representative_time = 71\<rparr>)]"
    by (simp add: apply_parse_timestamp_def comment_record_def parse_defs matcher_defs walk_defs)
  have "(65, ?m) \<in> set (aggregate_timeline_comments (sort_key fst) ?df) \<and>
      ?r \<in> set (comments ?m)"
    by (simp only: a) simp
  moreover have "(65, ?m') \<in> set (aggregate_timeline_comments_mainpage (sort_key fst) ?df) \<and>
      ?r \<in> set (comments ?m')"
    by (simp only: b) simp
  ultimately show ?thesis
    using aggregate_members_near_anchor [OF sorts_by_timestamp_sort_key,
        where k = 65 and m = ?m and df = ?df and r = ?r and k' = 65 and m' = ?m'
          and df' = ?df and r' = ?r]
    by (simp add: comment_record_def)
qed

text \<open>
  C9. A frame in which no row has a timestamp, the empty frame included, gives the empty
  mapping. The function has no failing branch on such a frame: it filters, finds the
  length 0 and returns, before the frame is sorted.
\<close>

theorem aggregate_no_timestamps:
  "((\<forall>r\<in>set df. timestamp r = None) \<longrightarrow>
      aggregate_timeline_comments sv df = [] \<and>
      aggregate_timeline_comments_mainpage sv df = []) \<and>
   aggregate_timeline_comments sv [] = [] \<and> aggregate_timeline_comments_mainpage sv [] = []"
  by (simp add: aggregate_timeline_comments_def aggregate_timeline_comments_mainpage_def
      notna_rows_empty)

theorem aggregate_no_timestamps_witness:
  "map timestamp (apply_parse_timestamp
       [comment_record ''nice video'' ''u1'' 4 ''d1'',
        comment_record ''first'' ''u2'' 0 ''d2'']) = [None, None] \<and>
   aggregate_timeline_comments (sort_key fst)
     (apply_parse_timestamp
       [comment_record ''nice video'' ''u1'' 4 ''d1'',
        comment_record ''first'' ''u2'' 0 ''d2'']) = [] \<and>
   aggregate_timeline_comments_mainpage (sort_key fst)
     (apply_parse_timestamp
       [comment_record ''nice video'' ''u1'' 4 ''d1'',
        comment_record ''first'' ''u2'' 0 ''d2'']) = []"
proof -
  let ?df = "apply_parse_timestamp
       [comment_record ''nice video'' ''u1'' 4 ''d1'',
        comment_record ''first'' ''u2'' 0 ''d2'']"
  have m: "map timestamp ?df = [None, None]"
    by (simp add: apply_parse_timestamp_def comment_record_def parse_defs matcher_defs)
  have "\<forall>r\<in>set ?df. timestamp r = None"
  proof
    fix r assume "r \<in> set ?df"
    then have "timestamp r \<in> set (map timestamp ?df)" by simp
    then show "timestamp r = None" by (simp only: m) simp
  qed
  with aggregate_no_timestamps [where df = ?df and sv = "sort_key fst"] m show ?thesis by blast
qed

text \<open>
  C7. The members of all Moments together are, as a multiset, exactly the rows with a
  timestamp: each such row occurs among the members as often as in the frame, and no row
  without a timestamp occurs. The keys are distinct, and two Moments at different
  positions share no member. This holds for every sort of the frame by timestamp.
\<close>

theorem aggregate_partition:
  assumes sv: "sorts_by_timestamp sv"
  shows "mset (concat (map (\<lambda>p. comments (snd p)) (aggregate_timeline_comments sv df))) =
     mset (filter (\<lambda>r. timestamp r \<noteq> None) df) \<and>
   distinct (map fst (aggregate_timeline_comments sv df)) \<and>
   (\<forall>i j. i < j \<and> j < length (aggregate_timeline_comments sv df) \<longrightarrow>
      set (comments (snd (aggregate_timeline_comments sv df ! i))) \<inter>
      set (comments (snd (aggregate_timeline_comments sv df ! j))) = {}) \<and>
   (\<forall>p\<in>set (aggregate_timeline_comments sv df). \<forall>r\<in>set (comments (snd p)).
      timestamp r \<noteq> None \<and> r \<in> set df) \<and>
   mset (concat (map (\<lambda>p. comments (snd p)) (aggregate_timeline_comments_mainpage sv df))) =
     mset (filter (\<lambda>r. timestamp r \<noteq> None) df) \<and>
   distinct (map fst (aggregate_timeline_comments_mainpage sv df)) \<and>
   (\<forall>i j. i < j \<and> j < length (aggregate_timeline_comments_mainpage sv df) \<longrightarrow>
      set (comments (snd (aggregate_timeline_comments_mainpage sv df ! i))) \<inter>
      set (comments (snd (aggregate_timeline_comments_mainpage sv df ! j))) = {}) \<and>
   (\<forall>p\<in>set (aggregate_timeline_comments_mainpage sv df). \<forall>r\<in>set (comments (snd p)).
      timestamp r \<noteq> None \<and> r \<in> set df)"
proof -
  let ?A = "aggregate_timeline_comments sv df"
    and ?B = "aggregate_timeline_comments_mainpage sv df"
  have gapB: "sorted_wrt (\<lambda>a b. a + 5 < b) (map fst ?B)"
    by (rule aggregate_mainpage_keys [OF sv])
  then have gapA: "sorted_wrt (\<lambda>a b. a + 5 < b) (map fst ?A)"
    by (simp add: aggregate_keys)
  have winA: "\<forall>(k, m)\<in>set ?A. \<forall>r\<in>set (comments m).
      \<exists>t. timestamp r = Some t \<and> k \<le> t \<and> t \<le> k + 5 \<and> r \<in> set df"
  proof (clarify)
    fix k m r assume km: "(k, m) \<in> set ?A" and "r \<in> set (comments m)"
    with aggregate_moment(1) [OF sv km]
    have "r \<in> set (rows_within k (sv (notna_rows df)))" by simp
    from rows_within_frame [OF sv this]
    show "\<exists>t. timestamp r = Some t \<and> k \<le> t \<and> t \<le> k + 5 \<and> r \<in> set df" .
  qed
  have winB: "\<forall>(k, m)\<in>set ?B. \<forall>r\<in>set (comments m).
      \<exists>t. timestamp r = Some t \<and> k \<le> t \<and> t \<le> k + 5 \<and> r \<in> set df"
  proof (clarify)
    fix k m r assume km: "(k, m) \<in> set ?B" and "r \<in> set (comments m)"
    with aggregate_mainpage_moment(1) [OF sv km]
    have "r \<in> set (rows_within k (sv (notna_rows df)))" by simp
    from rows_within_frame [OF sv this]
    show "\<exists>t. timestamp r = Some t \<and> k \<le> t \<and> t \<le> k + 5 \<and> r \<in> set df" .
  qed
  have winA': "\<forall>(k, m)\<in>set ?A. \<forall>r\<in>set (comments m).
      \<exists>t. timestamp r = Some t \<and> k \<le> t \<and> t \<le> k + 5"
    using winA by fastforce
  have winB': "\<forall>(k, m)\<in>set ?B. \<forall>r\<in>set (comments m).
      \<exists>t. timestamp r = Some t \<and> k \<le> t \<and> t \<le> k + 5"
    using winB by fastforce
  have 1: "mset (concat (map (\<lambda>p. comments (snd p)) ?A)) = mset (filter (\<lambda>r. timestamp r \<noteq> None) df)"
    by (rule members_das [OF sv])
  have 2: "distinct (map fst ?A)"
    by (rule gap_sorted_distinct [OF gapA])
  have 3: "\<forall>i j. i < j \<and> j < length ?A \<longrightarrow>
      set (comments (snd (?A ! i))) \<inter> set (comments (snd (?A ! j))) = {}"
    using windows_disjoint [OF gapA winA'] by blast
  have 4: "\<forall>p\<in>set ?A. \<forall>r\<in>set (comments (snd p)). timestamp r \<noteq> None \<and> r \<in> set df"
    using winA by fastforce
  have 5: "mset (concat (map (\<lambda>p. comments (snd p)) ?B)) = mset (filter (\<lambda>r. timestamp r \<noteq> None) df)"
    by (rule members_mainpage [OF sv])
  have 6: "distinct (map fst ?B)"
    by (rule gap_sorted_distinct [OF gapB])
  have 7: "\<forall>i j. i < j \<and> j < length ?B \<longrightarrow>
      set (comments (snd (?B ! i))) \<inter> set (comments (snd (?B ! j))) = {}"
    using windows_disjoint [OF gapB winB'] by blast
  have 8: "\<forall>p\<in>set ?B. \<forall>r\<in>set (comments (snd p)). timestamp r \<noteq> None \<and> r \<in> set df"
    using winB by fastforce
  from 1 2 3 4 5 6 7 8 show ?thesis by (intro conjI)
qed

theorem aggregate_partition_witness:
  "length (aggregate_timeline_comments (sort_key fst)
     (apply_parse_timestamp
       [comment_record ''10:00 end'' ''u4'' 1 ''d4'',
        comment_record ''lol'' ''u2'' 8 ''d2'',
        comment_record ''3:20 wow'' ''u1'' 5 ''d1'',
        comment_record ''3:22 same'' ''u3'' 2 ''d3''])) = 2 \<and>
   set (comments (snd (aggregate_timeline_comments (sort_key fst)
     (apply_parse_timestamp
       [comment_record ''10:00 end'' ''u4'' 1 ''d4'',
        comment_record ''lol'' ''u2'' 8 ''d2'',
        comment_record ''3:20 wow'' ''u1'' 5 ''d1'',
        comment_record ''3:22 same'' ''u3'' 2 ''d3'']) ! 0))) \<inter>
   set (comments (snd (aggregate_timeline_comments (sort_key fst)
     (apply_parse_timestamp
       [comment_record ''10:00 end'' ''u4'' 1 ''d4'',
        comment_record ''lol'' ''u2'' 8 ''d2'',
        comment_record ''3:20 wow'' ''u1'' 5 ''d1'',
        comment_record ''3:22 same'' ''u3'' 2 ''d3'']) ! 1))) = {} \<and>
   size (mset (concat (map (\<lambda>p. comments (snd p)) (aggregate_timeline_comments (sort_key fst)
     (apply_parse_timestamp
       [comment_record ''10:00 end'' ''u4'' 1 ''d4'',
        comment_record ''lol'' ''u2'' 8 ''d2'',
        comment_record ''3:20 wow'' ''u1'' 5 ''d1'',
        comment_record ''3:22 same'' ''u3'' 2 ''d3'']))))) = 3 \<and>
   (comment_record ''3:20 wow'' ''u1'' 5 ''d1'')\<lparr>timestamp := Some 200\<rparr>
     \<in> set (comments (snd (aggregate_timeline_comments (sort_key fst)
     (apply_parse_timestamp
       [comment_record ''10:00 end'' ''u4'' 1 ''d4'',
        comment_record ''lol'' ''u2'' 8 ''d2'',
        comment_record ''3:20 wow'' ''u1'' 5 ''d1'',
        comment_record ''3:22 same'' ''u3'' 2 ''d3'']) ! 0)))"
proof -
  let ?df = "apply_parse_timestamp
       [comment_record ''10:00 end'' ''u4'' 1 ''d4'',
        comment_record ''lol'' ''u2'' 8 ''d2'',
        comment_record ''3:20 wow'' ''u1'' 5 ''d1'',
        comment_record ''3:22 same'' ''u3'' 2 ''d3'']"
  let ?A = "aggregate_timeline_comments (sort_key fst) ?df"
  have f: "?df =
      [(comment_record ''10:00 end'' ''u4'' 1 ''d4'')\<lparr>timestamp := Some 600\<rparr>,
       comment_record ''lol'' ''u2'' 8 ''d2'',
       (comment_record ''3:20 wow'' ''u1'' 5 ''d1'')\<lparr>timestamp := Some 200\<rparr>,
       (comment_record ''3:22 same'' ''u3'' 2 ''d3'')\<lparr>timestamp := Some 202\<rparr>]"
    by (simp add: apply_parse_timestamp_def comment_record_def parse_defs matcher_defs)
  have a: "?A =
      [(200, \<lparr>comments =
              [(comment_record ''3:20 wow'' ''u1'' 5 ''d1'')\<lparr>timestamp := Some 200\<rparr>,
               (comment_record ''3:22 same'' ''u3'' 2 ''d3'')\<lparr>timestamp := Some 202\<rparr>],
            total_likes = 7, representative_time = 200\<rparr>),
       (600, \<lparr>comments =
              [(comment_record ''10:00 end'' ''u4'' 1 ''d4'')\<lparr>timestamp := Some 600\<rparr>],
            total_likes = 1, representative_time = 600\<rparr>)]"
    by (simp add: apply_parse_timestamp_def comment_record_def parse_defs matcher_defs walk_defs)
  have len: "length ?A = 2" by (simp only: a) simp
  note p = aggregate_partition [OF sorts_by_timestamp_sort_key, of ?df]
  from p have "mset (concat (map (\<lambda>p. comments (snd p)) ?A)) =
      mset (filter (\<lambda>r. timestamp r \<noteq> None) ?df)" by (rule conjunct1)
  then have "size (mset (concat (map (\<lambda>p. comments (snd p)) ?A))) =
      size (mset (filter (\<lambda>r. timestamp r \<noteq> None) ?df))" by simp
  also have "\<dots> = 3" by (simp only: f) (simp add: comment_record_def)
  finally have sz: "size (mset (concat (map (\<lambda>p. comments (snd p)) ?A))) = 3" .
  from p have "\<forall>i j. i < j \<and> j < length ?A \<longrightarrow>
      set (comments (snd (?A ! i))) \<inter> set (comments (snd (?A ! j))) = {}"
    by blast
  with len have dj: "set (comments (snd (?A ! 0))) \<inter> set (comments (snd (?A ! 1))) = {}"
    by simp
  have mem: "(comment_record ''3:20 wow'' ''u1'' 5 ''d1'')\<lparr>timestamp := Some 200\<rparr>
      \<in> set (comments (snd (?A ! 0)))"
    by (simp only: a) simp
  from len dj sz mem show ?thesis by (intro conjI)
qed

subsection \<open>The order of the members\<close>

text \<open>
  In \<^verbatim>\<open>das.py\<close> the members of every Moment are in descending order of \<open>likeCount\<close>, and
  members of equal \<open>likeCount\<close> keep the order in which the loop inserted them. The
  insertion sequence of the Moment keyed \<open>k\<close> is the rows of the sorted frame in the
  window of \<open>k\<close>; it is the member list that \<^verbatim>\<open>das-mainpage.py\<close> returns.
\<close>

lemma das_members_sorted:
  assumes sv: "sorts_by_timestamp sv"
    and km: "(k, m) \<in> set (aggregate_timeline_comments sv df)"
  shows "sorted (rev (map likeCount (comments m)))"
    and "mset (comments m) = mset (rows_within k (sv (notna_rows df)))"
    and "filter (\<lambda>r. likeCount r = v) (comments m) =
         filter (\<lambda>r. likeCount r = v) (rows_within k (sv (notna_rows df)))"
    and "\<exists>m'. (k, m') \<in> set (aggregate_timeline_comments_mainpage sv df) \<and>
           comments m' = rows_within k (sv (notna_rows df))"
proof -
  note c = aggregate_moment(1) [OF sv km]
  show "sorted (rev (map likeCount (comments m)))"
    by (simp only: c list_sort_reverse_descending)
  show "mset (comments m) = mset (rows_within k (sv (notna_rows df)))"
    by (simp only: c mset_list_sort_reverse)
  show "filter (\<lambda>r. likeCount r = v) (comments m) =
         filter (\<lambda>r. likeCount r = v) (rows_within k (sv (notna_rows df)))"
    by (simp only: c list_sort_reverse_stable)
  from aggregate_moment(5) [OF sv km] obtain m' where
    m': "(k, m') \<in> set (aggregate_timeline_comments_mainpage sv df)" by blast
  with aggregate_mainpage_moment(1) [OF sv m']
  show "\<exists>m'. (k, m') \<in> set (aggregate_timeline_comments_mainpage sv df) \<and>
           comments m' = rows_within k (sv (notna_rows df))" by blast
qed

lemma sorts_fixed:
  assumes sv: "sorts_by_timestamp sv"
    and srt: "sorted (map fst xs)" and dis: "distinct (map fst xs)"
  shows "sv xs = xs"
proof -
  have m: "mset (sv xs) = mset xs" by (rule sorts_mset [OF sv])
  then have mk: "mset (map fst (sv xs)) = mset (map fst xs)" by simp
  have s: "set (sv xs) = set xs" by (rule sorts_set [OF sv])
  from mk dis have d: "distinct (map fst (sv xs))"
    by (simp add: mset_eq_imp_distinct_iff [OF mk])
  from s have sk: "set (map fst (sv xs)) = set (map fst xs)" by simp
  have keys: "map fst (sv xs) = map fst xs"
    by (rule sorted_distinct_set_unique [OF sorts_sorted [OF sv] d srt dis sk])
  from dis have "inj_on fst (set xs)" by (simp add: distinct_map)
  with s have "inj_on fst (set (sv xs) \<union> set xs)" by simp
  with keys show ?thesis by (simp add: inj_on_map_eq_map)
qed

lemma aggregate_walk:
  assumes sv: "sorts_by_timestamp sv"
  shows "aggregate_timeline_comments sv df =
     map sort_members (snd (foldl group_row_mainpage (None, []) (sv (notna_rows df))))"
  by (simp only: aggregate_sort_members aggregate_mainpage_walk [OF sv])

lemmas step_defs = next_group_def lookup_default_def default_moment_def sort_members_def

text \<open>
  C2. The claim fails in \<^verbatim>\<open>das-mainpage.py\<close>, whose loop lacks the sort that the loop of
  \<^verbatim>\<open>das.py\<close> has. Two comments at 0:10 and 0:12, the first with 1 like and the second
  with 5, fall into one Moment; \<^verbatim>\<open>das-mainpage.py\<close> returns its members with the likes in
  the order 1, 5, and \<^verbatim>\<open>das.py\<close> in the order 5, 1. The timestamps differ, so this holds
  for every sort of the frame by timestamp.
\<close>

theorem mainpage_members_not_sorted:
  assumes sv: "sorts_by_timestamp sv"
  shows "map (map likeCount \<circ> comments \<circ> snd)
     (aggregate_timeline_comments_mainpage sv
       (apply_parse_timestamp
       [comment_record ''0:10 intro'' ''u1'' 1 ''d1'',
        comment_record ''0:12 lol'' ''u2'' 5 ''d2''])) = [ [1, 5] ] \<and>
   map (map likeCount \<circ> comments \<circ> snd)
     (aggregate_timeline_comments sv
       (apply_parse_timestamp
       [comment_record ''0:10 intro'' ''u1'' 1 ''d1'',
        comment_record ''0:12 lol'' ''u2'' 5 ''d2''])) = [ [5, 1] ]"
proof -
  let ?df = "apply_parse_timestamp
       [comment_record ''0:10 intro'' ''u1'' 1 ''d1'',
        comment_record ''0:12 lol'' ''u2'' 5 ''d2'']"
  have n: "notna_rows ?df =
      [(10, (comment_record ''0:10 intro'' ''u1'' 1 ''d1'')\<lparr>timestamp := Some 10\<rparr>),
       (12, (comment_record ''0:12 lol'' ''u2'' 5 ''d2'')\<lparr>timestamp := Some 12\<rparr>)]"
    by (simp add: apply_parse_timestamp_def comment_record_def parse_defs matcher_defs)
  have "sv (notna_rows ?df) = notna_rows ?df"
    by (rule sorts_fixed [OF sv]) (simp_all only: n, simp_all)
  then have w: "sv (notna_rows ?df) =
      [(10, (comment_record ''0:10 intro'' ''u1'' 1 ''d1'')\<lparr>timestamp := Some 10\<rparr>),
       (12, (comment_record ''0:12 lol'' ''u2'' 5 ''d2'')\<lparr>timestamp := Some 12\<rparr>)]"
    by (simp only: n)
  have 1: "map (map likeCount \<circ> comments \<circ> snd)
      (aggregate_timeline_comments_mainpage sv ?df) = [ [1, 5] ]"
    by (simp only: aggregate_mainpage_walk [OF sv] w) (simp add: step_defs comment_record_def)
  have 2: "map (map likeCount \<circ> comments \<circ> snd)
      (aggregate_timeline_comments sv ?df) = [ [5, 1] ]"
    by (simp only: aggregate_walk [OF sv] w)
      (simp add: step_defs comment_record_def list_sort_reverse_def)
  from 1 2 show ?thesis ..
qed

theorem mainpage_members_not_sorted_witness:
  "map (map likeCount \<circ> comments \<circ> snd)
     (aggregate_timeline_comments_mainpage (sort_key fst)
       (apply_parse_timestamp
       [comment_record ''0:10 intro'' ''u1'' 1 ''d1'',
        comment_record ''0:12 lol'' ''u2'' 5 ''d2''])) = [ [1, 5] ] \<and>
   map (map likeCount \<circ> comments \<circ> snd)
     (aggregate_timeline_comments (sort_key fst)
       (apply_parse_timestamp
       [comment_record ''0:10 intro'' ''u1'' 1 ''d1'',
        comment_record ''0:12 lol'' ''u2'' 5 ''d2''])) = [ [5, 1] ]"
  by (rule mainpage_members_not_sorted [OF sorts_by_timestamp_sort_key])

subsection \<open>The displayed ranking\<close>

lemma sorted_wrt_filter_lift:
  "sorted_wrt P (filter Q xs) \<Longrightarrow> sorted_wrt (\<lambda>a b. Q a \<and> Q b \<longrightarrow> P a b) xs"
  by (induction xs) (auto split: if_splits)

lemma list_sort_reverse_ties:
  assumes "sorted_wrt (\<lambda>a b. g a < g b) xs"
  shows "sorted_wrt (\<lambda>a b. f a > f b \<or> (f a = f b \<and> g a < g b)) (list_sort_reverse f xs)"
proof -
  let ?L = "list_sort_reverse f xs"
  have desc: "sorted_wrt (\<lambda>a b. f b \<le> f a) ?L"
    using list_sort_reverse_descending [of f xs]
    by (simp add: rev_map sorted_wrt_map sorted_wrt_rev)
  have tie: "sorted_wrt (\<lambda>a b. f a = v \<and> f b = v \<longrightarrow> g a < g b) ?L" for v
  proof (rule sorted_wrt_filter_lift)
    show "sorted_wrt (\<lambda>a b. g a < g b) (filter (\<lambda>y. f y = v) ?L)"
      by (simp only: list_sort_reverse_stable sorted_wrt_filter [OF assms])
  qed
  show ?thesis
    unfolding sorted_wrt_iff_nth_less
  proof (intro allI impI)
    fix i j assume ij: "i < j" "j < length ?L"
    from desc ij have "f (?L ! j) \<le> f (?L ! i)"
      by (simp add: sorted_wrt_iff_nth_less)
    moreover from tie [of "f (?L ! i)"] ij
    have "f (?L ! j) = f (?L ! i) \<longrightarrow> g (?L ! i) < g (?L ! j)"
      by (simp add: sorted_wrt_iff_nth_less)
    ultimately show "f (?L ! j) < f (?L ! i) \<or> f (?L ! i) = f (?L ! j) \<and> g (?L ! i) < g (?L ! j)"
      by force
  qed
qed

lemma sorted_wrt_take_prefix: "sorted_wrt P xs \<Longrightarrow> sorted_wrt P (take n xs)"
  by (simp add: sorted_wrt_iff_nth_less)

lemma keys_ascending_mainpage:
  assumes sv: "sorts_by_timestamp sv"
  shows "sorted_wrt (\<lambda>a b. fst a < fst b) (aggregate_timeline_comments_mainpage sv df)"
proof -
  have "sorted_wrt (\<lambda>a b. a < b) (map fst (aggregate_timeline_comments_mainpage sv df))"
    by (rule sorted_wrt_mono_rel [OF _ aggregate_mainpage_keys [OF sv]]) simp
  then show ?thesis by (simp add: sorted_wrt_map)
qed

lemma keys_ascending:
  assumes sv: "sorts_by_timestamp sv"
  shows "sorted_wrt (\<lambda>a b. fst a < fst b) (aggregate_timeline_comments sv df)"
proof -
  have "sorted_wrt (\<lambda>a b. a < b) (map fst (aggregate_timeline_comments sv df))"
    unfolding aggregate_keys
    by (rule sorted_wrt_mono_rel [OF _ aggregate_mainpage_keys [OF sv]]) simp
  then show ?thesis by (simp add: sorted_wrt_map)
qed

lemma ranking_order:
  assumes asc: "sorted_wrt (\<lambda>a b. fst a < fst b) td"
    and rep: "\<forall>p\<in>set td. representative_time (snd p) = fst p"
  shows "sorted_wrt (\<lambda>a b. total_likes (snd a) > total_likes (snd b) \<or>
            (total_likes (snd a) = total_likes (snd b) \<and>
             representative_time (snd a) < representative_time (snd b)))
           (list_sort_reverse (\<lambda>x. total_likes (snd x)) td)"
proof -
  let ?L = "list_sort_reverse (\<lambda>x. total_likes (snd x)) td"
  have ties: "sorted_wrt (\<lambda>a b. total_likes (snd a) > total_likes (snd b) \<or>
            (total_likes (snd a) = total_likes (snd b) \<and> fst a < fst b)) ?L"
    by (rule list_sort_reverse_ties [OF asc])
  show ?thesis
  proof (rule sorted_wrt_mono_rel [OF _ ties])
    fix a b assume "a \<in> set ?L" "b \<in> set ?L"
    with rep have "representative_time (snd a) = fst a" "representative_time (snd b) = fst b"
      by simp_all
    moreover assume "total_likes (snd a) > total_likes (snd b) \<or>
            (total_likes (snd a) = total_likes (snd b) \<and> fst a < fst b)"
    ultimately show "total_likes (snd a) > total_likes (snd b) \<or>
            (total_likes (snd a) = total_likes (snd b) \<and>
             representative_time (snd a) < representative_time (snd b))" by simp
  qed
qed

lemma displayed_head_of_ranking:
  assumes asc: "sorted_wrt (\<lambda>a b. fst a < fst b) td"
    and rep: "\<forall>p\<in>set td. representative_time (snd p) = fst p"
  shows "length (displayed_moments td) \<le> 10 \<and>
   length (displayed_moments td) = min 10 (length td) \<and>
   set (displayed_moments td) \<subseteq> set td \<and>
   sorted_wrt (\<lambda>a b. total_likes (snd a) > total_likes (snd b) \<or>
       (total_likes (snd a) = total_likes (snd b) \<and>
        representative_time (snd a) < representative_time (snd b)))
     (displayed_moments td) \<and>
   (\<exists>rest. mset (displayed_moments td @ rest) = mset td \<and>
      sorted_wrt (\<lambda>a b. total_likes (snd a) > total_likes (snd b) \<or>
          (total_likes (snd a) = total_likes (snd b) \<and>
           representative_time (snd a) < representative_time (snd b)))
        (displayed_moments td @ rest))"
proof -
  let ?L = "list_sort_reverse (\<lambda>x. total_likes (snd x)) td"
  note full = ranking_order [OF asc rep]
  have d: "displayed_moments td = take 10 ?L"
    by (simp add: displayed_moments_def)
  have whole: "displayed_moments td @ drop 10 ?L = ?L"
    by (simp add: d)
  have 1: "length (displayed_moments td) = min 10 (length td)"
    by (simp add: d min.commute)
  then have 0: "length (displayed_moments td) \<le> 10" by simp
  have 2: "set (displayed_moments td) \<subseteq> set td"
    using set_take_subset [of 10 ?L] by (simp add: d)
  have 3: "sorted_wrt (\<lambda>a b. total_likes (snd a) > total_likes (snd b) \<or>
       (total_likes (snd a) = total_likes (snd b) \<and>
        representative_time (snd a) < representative_time (snd b)))
     (displayed_moments td)"
    unfolding d by (rule sorted_wrt_take_prefix [OF full])
  have "mset (displayed_moments td @ drop 10 ?L) = mset td \<and>
      sorted_wrt (\<lambda>a b. total_likes (snd a) > total_likes (snd b) \<or>
          (total_likes (snd a) = total_likes (snd b) \<and>
           representative_time (snd a) < representative_time (snd b)))
        (displayed_moments td @ drop 10 ?L)"
    by (simp only: whole mset_list_sort_reverse full)
  then have 4: "\<exists>rest. mset (displayed_moments td @ rest) = mset td \<and>
      sorted_wrt (\<lambda>a b. total_likes (snd a) > total_likes (snd b) \<or>
          (total_likes (snd a) = total_likes (snd b) \<and>
           representative_time (snd a) < representative_time (snd b)))
        (displayed_moments td @ rest)" ..
  from 0 1 2 3 4 show ?thesis by (intro conjI)
qed

text \<open>
  C5. The displayed list, taken from the output of either aggregation, is the head of the
  full ranking: followed by some list \<open>rest\<close> it holds exactly the Moments of the
  mapping, in descending order of \<open>total_likes\<close> with Moments of equal \<open>total_likes\<close> in
  ascending order of \<open>representative_time\<close>. It has 10 Moments, or all of them where
  the mapping has fewer. The tie order comes from the stable sort over the insertion
  order of the mapping, in which the keys ascend.
\<close>

theorem displayed_moments_ranking:
  assumes sv: "sorts_by_timestamp sv"
  shows "length (displayed_moments (aggregate_timeline_comments sv df)) \<le> 10 \<and>
   length (displayed_moments (aggregate_timeline_comments sv df)) =
     min 10 (length (aggregate_timeline_comments sv df)) \<and>
   set (displayed_moments (aggregate_timeline_comments sv df))
     \<subseteq> set (aggregate_timeline_comments sv df) \<and>
   sorted_wrt (\<lambda>a b. total_likes (snd a) > total_likes (snd b) \<or>
       (total_likes (snd a) = total_likes (snd b) \<and>
        representative_time (snd a) < representative_time (snd b)))
     (displayed_moments (aggregate_timeline_comments sv df)) \<and>
   (\<exists>rest. mset (displayed_moments (aggregate_timeline_comments sv df) @ rest) =
        mset (aggregate_timeline_comments sv df) \<and>
      sorted_wrt (\<lambda>a b. total_likes (snd a) > total_likes (snd b) \<or>
          (total_likes (snd a) = total_likes (snd b) \<and>
           representative_time (snd a) < representative_time (snd b)))
        (displayed_moments (aggregate_timeline_comments sv df) @ rest)) \<and>
   length (displayed_moments (aggregate_timeline_comments_mainpage sv df)) \<le> 10 \<and>
   length (displayed_moments (aggregate_timeline_comments_mainpage sv df)) =
     min 10 (length (aggregate_timeline_comments_mainpage sv df)) \<and>
   set (displayed_moments (aggregate_timeline_comments_mainpage sv df))
     \<subseteq> set (aggregate_timeline_comments_mainpage sv df) \<and>
   sorted_wrt (\<lambda>a b. total_likes (snd a) > total_likes (snd b) \<or>
       (total_likes (snd a) = total_likes (snd b) \<and>
        representative_time (snd a) < representative_time (snd b)))
     (displayed_moments (aggregate_timeline_comments_mainpage sv df)) \<and>
   (\<exists>rest. mset (displayed_moments (aggregate_timeline_comments_mainpage sv df) @ rest) =
        mset (aggregate_timeline_comments_mainpage sv df) \<and>
      sorted_wrt (\<lambda>a b. total_likes (snd a) > total_likes (snd b) \<or>
          (total_likes (snd a) = total_likes (snd b) \<and>
           representative_time (snd a) < representative_time (snd b)))
        (displayed_moments (aggregate_timeline_comments_mainpage sv df) @ rest))"
proof -
  have "\<forall>p\<in>set (aggregate_timeline_comments sv df). representative_time (snd p) = fst p"
    using aggregate_moment(3) [OF sv] by fastforce
  note a = displayed_head_of_ranking [OF keys_ascending [OF sv] this]
  have "\<forall>p\<in>set (aggregate_timeline_comments_mainpage sv df).
      representative_time (snd p) = fst p"
    using aggregate_mainpage_moment(3) [OF sv] by fastforce
  note b = displayed_head_of_ranking [OF keys_ascending_mainpage [OF sv] this]
  from a b show ?thesis
    by (elim conjE) (intro conjI; assumption)
qed

theorem displayed_moments_ranking_witness:
  "length (aggregate_timeline_comments (sort_key fst)
     (apply_parse_timestamp
       [comment_record ''1:10 h'' ''u8'' 4 ''d8'',
        comment_record ''0:20 c'' ''u3'' 3 ''d3'',
        comment_record ''1:40 k'' ''u11'' 1000 ''d11'',
        comment_record ''0:00 a'' ''u1'' 3 ''d1'',
        comment_record ''0:50 f'' ''u6'' 2 ''d6'',
        comment_record ''0:30 d'' ''u4'' 1 ''d4'',
        comment_record ''1:30 j'' ''u10'' 5 ''d10'',
        comment_record ''0:10 b'' ''u2'' 7 ''d2'',
        comment_record ''1:00 g'' ''u7'' 9 ''d7'',
        comment_record ''0:40 e'' ''u5'' 7 ''d5'',
        comment_record ''1:20 i'' ''u9'' 6 ''d9''])) = 11 \<and>
   length (displayed_moments (aggregate_timeline_comments (sort_key fst)
     (apply_parse_timestamp
       [comment_record ''1:10 h'' ''u8'' 4 ''d8'',
        comment_record ''0:20 c'' ''u3'' 3 ''d3'',
        comment_record ''1:40 k'' ''u11'' 1000 ''d11'',
        comment_record ''0:00 a'' ''u1'' 3 ''d1'',
        comment_record ''0:50 f'' ''u6'' 2 ''d6'',
        comment_record ''0:30 d'' ''u4'' 1 ''d4'',
        comment_record ''1:30 j'' ''u10'' 5 ''d10'',
        comment_record ''0:10 b'' ''u2'' 7 ''d2'',
        comment_record ''1:00 g'' ''u7'' 9 ''d7'',
        comment_record ''0:40 e'' ''u5'' 7 ''d5'',
        comment_record ''1:20 i'' ''u9'' 6 ''d9'']))) = 10 \<and>
   map fst (displayed_moments (aggregate_timeline_comments (sort_key fst)
     (apply_parse_timestamp
       [comment_record ''1:10 h'' ''u8'' 4 ''d8'',
        comment_record ''0:20 c'' ''u3'' 3 ''d3'',
        comment_record ''1:40 k'' ''u11'' 1000 ''d11'',
        comment_record ''0:00 a'' ''u1'' 3 ''d1'',
        comment_record ''0:50 f'' ''u6'' 2 ''d6'',
        comment_record ''0:30 d'' ''u4'' 1 ''d4'',
        comment_record ''1:30 j'' ''u10'' 5 ''d10'',
        comment_record ''0:10 b'' ''u2'' 7 ''d2'',
        comment_record ''1:00 g'' ''u7'' 9 ''d7'',
        comment_record ''0:40 e'' ''u5'' 7 ''d5'',
        comment_record ''1:20 i'' ''u9'' 6 ''d9'']))) = [100, 60, 10, 40, 80, 90, 70, 0, 20, 50] \<and>
   map (total_likes \<circ> snd) (displayed_moments (aggregate_timeline_comments (sort_key fst)
     (apply_parse_timestamp
       [comment_record ''1:10 h'' ''u8'' 4 ''d8'',
        comment_record ''0:20 c'' ''u3'' 3 ''d3'',
        comment_record ''1:40 k'' ''u11'' 1000 ''d11'',
        comment_record ''0:00 a'' ''u1'' 3 ''d1'',
        comment_record ''0:50 f'' ''u6'' 2 ''d6'',
        comment_record ''0:30 d'' ''u4'' 1 ''d4'',
        comment_record ''1:30 j'' ''u10'' 5 ''d10'',
        comment_record ''0:10 b'' ''u2'' 7 ''d2'',
        comment_record ''1:00 g'' ''u7'' 9 ''d7'',
        comment_record ''0:40 e'' ''u5'' 7 ''d5'',
        comment_record ''1:20 i'' ''u9'' 6 ''d9'']))) = [1000, 9, 7, 7, 6, 5, 4, 3, 3, 2] \<and>
   sorted_wrt (\<lambda>a b. total_likes (snd a) > total_likes (snd b) \<or>
       (total_likes (snd a) = total_likes (snd b) \<and>
        representative_time (snd a) < representative_time (snd b)))
     (displayed_moments (aggregate_timeline_comments (sort_key fst)
     (apply_parse_timestamp
       [comment_record ''1:10 h'' ''u8'' 4 ''d8'',
        comment_record ''0:20 c'' ''u3'' 3 ''d3'',
        comment_record ''1:40 k'' ''u11'' 1000 ''d11'',
        comment_record ''0:00 a'' ''u1'' 3 ''d1'',
        comment_record ''0:50 f'' ''u6'' 2 ''d6'',
        comment_record ''0:30 d'' ''u4'' 1 ''d4'',
        comment_record ''1:30 j'' ''u10'' 5 ''d10'',
        comment_record ''0:10 b'' ''u2'' 7 ''d2'',
        comment_record ''1:00 g'' ''u7'' 9 ''d7'',
        comment_record ''0:40 e'' ''u5'' 7 ''d5'',
        comment_record ''1:20 i'' ''u9'' 6 ''d9''])))"
proof -
  let ?df = "apply_parse_timestamp
       [comment_record ''1:10 h'' ''u8'' 4 ''d8'',
        comment_record ''0:20 c'' ''u3'' 3 ''d3'',
        comment_record ''1:40 k'' ''u11'' 1000 ''d11'',
        comment_record ''0:00 a'' ''u1'' 3 ''d1'',
        comment_record ''0:50 f'' ''u6'' 2 ''d6'',
        comment_record ''0:30 d'' ''u4'' 1 ''d4'',
        comment_record ''1:30 j'' ''u10'' 5 ''d10'',
        comment_record ''0:10 b'' ''u2'' 7 ''d2'',
        comment_record ''1:00 g'' ''u7'' 9 ''d7'',
        comment_record ''0:40 e'' ''u5'' 7 ''d5'',
        comment_record ''1:20 i'' ''u9'' 6 ''d9'']"
  let ?A = "aggregate_timeline_comments (sort_key fst) ?df"
  have f: "map (\<lambda>p. (fst p, total_likes (snd p))) ?A =
      [(0, 3), (10, 7), (20, 3), (30, 1), (40, 7), (50, 2), (60, 9), (70, 4), (80, 6), (90, 5), (100, 1000)]"
    by (simp add: apply_parse_timestamp_def comment_record_def parse_defs matcher_defs walk_defs)
  have len: "length ?A = 11"
    using arg_cong [OF f, of length] by simp
  note t = displayed_moments_ranking [OF sorts_by_timestamp_sort_key, of ?df]
  from t have "length (displayed_moments ?A) = min 10 (length ?A)" by blast
  with len have 1: "length (displayed_moments ?A) = 10" by simp
  have 2: "map fst (displayed_moments ?A) = [100, 60, 10, 40, 80, 90, 70, 0, 20, 50]"
    by (simp add: apply_parse_timestamp_def comment_record_def parse_defs matcher_defs walk_defs
        displayed_moments_def)
  have 3: "map (total_likes \<circ> snd) (displayed_moments ?A) = [1000, 9, 7, 7, 6, 5, 4, 3, 3, 2]"
    by (simp add: apply_parse_timestamp_def comment_record_def parse_defs matcher_defs walk_defs
        displayed_moments_def)
  from t have 4: "sorted_wrt (\<lambda>a b. total_likes (snd a) > total_likes (snd b) \<or>
       (total_likes (snd a) = total_likes (snd b) \<and>
        representative_time (snd a) < representative_time (snd b)))
     (displayed_moments ?A)" by blast
  from len 1 2 3 4 show ?thesis by (intro conjI)
qed

subsection \<open>Where a new group opens\<close>

lemma sorted_keys:
  assumes sv: "sorts_by_timestamp sv"
    and "mset (map fst xs) = mset ks" "sorted ks"
  shows "map fst (sv xs) = ks"
proof -
  from assms(2) have "mset ks = mset (map fst xs)" by simp
  from properties_for_sort [OF this assms(3)] have "sort (map fst xs) = ks" .
  moreover have "sort (map fst xs) = map fst (sv xs)"
    by (rule properties_for_sort) (simp_all add: sorts_mset [OF sv] sorts_sorted [OF sv])
  ultimately show ?thesis by simp
qed

lemma frame_of_sorted:
  assumes sv: "sorts_by_timestamp sv"
  shows "mset (filter (\<lambda>r. timestamp r \<noteq> None) df) = mset (map snd (sv (notna_rows df)))"
proof -
  have "mset (map snd (sv (notna_rows df))) = mset (map snd (notna_rows df))"
    by (simp only: mset_map sorts_mset [OF sv])
  then show ?thesis by (simp add: map_snd_notna_rows)
qed

lemma sorted_frame_timestamp:
  assumes sv: "sorts_by_timestamp sv"
  shows "(t, r) \<in> set (sv (notna_rows df)) \<Longrightarrow> timestamp r = Some t"
  using notna_rows_timestamp [of t r df] by (simp add: sorts_set [OF sv])

lemma offsets_0_4_8_12:
  assumes sv: "sorts_by_timestamp sv"
    and off: "mset (map fst (notna_rows df)) = {#0, 4, 8, 12#}"
  shows "\<exists>a b c d.
     mset (filter (\<lambda>r. timestamp r \<noteq> None) df) = {#a, b, c, d#} \<and>
     timestamp a = Some 0 \<and> timestamp b = Some 4 \<and> timestamp c = Some 8 \<and>
     timestamp d = Some 12 \<and>
     aggregate_timeline_comments_mainpage sv df =
       [(0, \<lparr>comments = [a, b], total_likes = likeCount a + likeCount b,
             representative_time = 0\<rparr>),
        (8, \<lparr>comments = [c, d], total_likes = likeCount c + likeCount d,
             representative_time = 8\<rparr>)] \<and>
     aggregate_timeline_comments sv df =
       [(0, \<lparr>comments = list_sort_reverse likeCount [a, b],
             total_likes = likeCount a + likeCount b, representative_time = 0\<rparr>),
        (8, \<lparr>comments = list_sort_reverse likeCount [c, d],
             total_likes = likeCount c + likeCount d, representative_time = 8\<rparr>)]"
proof -
  let ?ys = "sv (notna_rows df)"
  from off have "mset (map fst (notna_rows df)) = mset [0, 4, 8, 12]" by simp
  from sorted_keys [OF sv this] have "map fst ?ys = [0, 4, 8, 12]" by simp
  then obtain a b c d where ys: "?ys = [(0, a), (4, b), (8, c), (12, d)]"
    by (auto simp: map_eq_Cons_conv)
  have ts: "timestamp a = Some 0" "timestamp b = Some 4" "timestamp c = Some 8"
    "timestamp d = Some 12"
    by (rule sorted_frame_timestamp [OF sv, of _ _ df], simp add: ys)+
  have fr: "mset (filter (\<lambda>r. timestamp r \<noteq> None) df) = {#a, b, c, d#}"
    by (simp only: frame_of_sorted [OF sv] ys) simp
  have mp: "aggregate_timeline_comments_mainpage sv df =
       [(0, \<lparr>comments = [a, b], total_likes = likeCount a + likeCount b,
             representative_time = 0\<rparr>),
        (8, \<lparr>comments = [c, d], total_likes = likeCount c + likeCount d,
             representative_time = 8\<rparr>)]"
    by (simp add: aggregate_mainpage_walk [OF sv] ys step_defs)
  have ds: "aggregate_timeline_comments sv df =
       [(0, \<lparr>comments = list_sort_reverse likeCount [a, b],
             total_likes = likeCount a + likeCount b, representative_time = 0\<rparr>),
        (8, \<lparr>comments = list_sort_reverse likeCount [c, d],
             total_likes = likeCount c + likeCount d, representative_time = 8\<rparr>)]"
    by (simp add: aggregate_walk [OF sv] ys step_defs)
  from ts fr mp ds show ?thesis by blast
qed

lemma offsets_0_4_11:
  assumes sv: "sorts_by_timestamp sv"
    and off: "mset (map fst (notna_rows df')) = {#0, 4, 11#}"
  shows "\<exists>a b c.
         mset (filter (\<lambda>r. timestamp r \<noteq> None) df') = {#a, b, c#} \<and>
         timestamp a = Some 0 \<and> timestamp b = Some 4 \<and> timestamp c = Some 11 \<and>
         aggregate_timeline_comments_mainpage sv df' =
           [(0, \<lparr>comments = [a, b], total_likes = likeCount a + likeCount b,
                 representative_time = 0\<rparr>),
            (11, \<lparr>comments = [c], total_likes = likeCount c, representative_time = 11\<rparr>)] \<and>
         aggregate_timeline_comments sv df' =
           [(0, \<lparr>comments = list_sort_reverse likeCount [a, b],
                 total_likes = likeCount a + likeCount b, representative_time = 0\<rparr>),
            (11, \<lparr>comments = [c], total_likes = likeCount c, representative_time = 11\<rparr>)]"
proof -
  let ?ys = "sv (notna_rows df')"
  from off have "mset (map fst (notna_rows df')) = mset [0, 4, 11]" by simp
  from sorted_keys [OF sv this] have "map fst ?ys = [0, 4, 11]" by simp
  then obtain a b c where ys: "?ys = [(0, a), (4, b), (11, c)]"
    by (auto simp: map_eq_Cons_conv)
  have ts: "timestamp a = Some 0" "timestamp b = Some 4" "timestamp c = Some 11"
    by (rule sorted_frame_timestamp [OF sv, of _ _ df'], simp add: ys)+
  have fr: "mset (filter (\<lambda>r. timestamp r \<noteq> None) df') = {#a, b, c#}"
    by (simp only: frame_of_sorted [OF sv] ys) simp
  have mp: "aggregate_timeline_comments_mainpage sv df' =
       [(0, \<lparr>comments = [a, b], total_likes = likeCount a + likeCount b,
             representative_time = 0\<rparr>),
        (11, \<lparr>comments = [c], total_likes = likeCount c, representative_time = 11\<rparr>)]"
    by (simp add: aggregate_mainpage_walk [OF sv] ys step_defs)
  have ds: "aggregate_timeline_comments sv df' =
       [(0, \<lparr>comments = list_sort_reverse likeCount [a, b],
             total_likes = likeCount a + likeCount b, representative_time = 0\<rparr>),
        (11, \<lparr>comments = [c], total_likes = likeCount c, representative_time = 11\<rparr>)]"
    by (simp add: aggregate_walk [OF sv] ys step_defs list_sort_reverse_def)
  from ts fr mp ds show ?thesis by blast
qed

lemma group_row_anchor:
  "fst (group_row (cg, td) (ts, r)) = Some (next_group cg ts)"
  "fst (group_row_mainpage (cg, td) (ts, r)) = Some (next_group cg ts)"
  by (simp_all add: Let_def)

lemma group_row_keys:
  "map fst (snd (group_row (cg, td) (ts, r))) =
     (if next_group cg ts \<in> set (map fst td) then map fst td
      else map fst td @ [next_group cg ts])"
  "map fst (snd (group_row_mainpage (cg, td) (ts, r))) =
     (if next_group cg ts \<in> set (map fst td) then map fst td
      else map fst td @ [next_group cg ts])"
  by (simp_all add: Let_def update_keys)

text \<open>
  C3. One iteration of the loop moves the current group to the incoming timestamp exactly
  when the two differ by more than 5; a difference of exactly 5 keeps the group, and the
  first row always opens one. With the current group among the keys and the incoming
  timestamp not another key, the iteration adds a key exactly when the difference is
  more than 5. In the output, for every sort of the frame by timestamp, consecutive keys
  are more than 5 apart, and the offsets 0, 4 and 11, in any arrival order, give two
  Moments: key 0 with the rows at 0 and 4, and key 11 with the row at 11.
\<close>

theorem cluster_threshold:
  "fst (group_row (Some g, td) (ts, r)) = Some (if \<bar>ts - g\<bar> > 5 then ts else g) \<and>
   fst (group_row_mainpage (Some g, td) (ts, r)) = Some (if \<bar>ts - g\<bar> > 5 then ts else g) \<and>
   fst (group_row (Some g, td) (g + 5, r)) = Some g \<and>
   fst (group_row_mainpage (Some g, td) (g + 5, r)) = Some g \<and>
   fst (group_row (None, td) (ts, r)) = Some ts \<and>
   fst (group_row_mainpage (None, td) (ts, r)) = Some ts \<and>
   (g \<in> set (map fst td) \<and> (ts \<in> set (map fst td) \<longrightarrow> ts = g) \<longrightarrow>
      (map fst (snd (group_row (Some g, td) (ts, r))) = map fst td @ [ts] \<longleftrightarrow> \<bar>ts - g\<bar> > 5) \<and>
      (map fst (snd (group_row (Some g, td) (ts, r))) = map fst td \<longleftrightarrow> \<bar>ts - g\<bar> \<le> 5) \<and>
      (map fst (snd (group_row_mainpage (Some g, td) (ts, r))) = map fst td @ [ts]
         \<longleftrightarrow> \<bar>ts - g\<bar> > 5) \<and>
      (map fst (snd (group_row_mainpage (Some g, td) (ts, r))) = map fst td
         \<longleftrightarrow> \<bar>ts - g\<bar> \<le> 5)) \<and>
   (sorts_by_timestamp sv \<longrightarrow>
      sorted_wrt (\<lambda>a b. a + 5 < b) (map fst (aggregate_timeline_comments sv df)) \<and>
      sorted_wrt (\<lambda>a b. a + 5 < b) (map fst (aggregate_timeline_comments_mainpage sv df))) \<and>
   (sorts_by_timestamp sv \<and> mset (map fst (notna_rows df')) = {#0, 4, 11#} \<longrightarrow>
      (\<exists>a b c.
         mset (filter (\<lambda>r. timestamp r \<noteq> None) df') = {#a, b, c#} \<and>
         timestamp a = Some 0 \<and> timestamp b = Some 4 \<and> timestamp c = Some 11 \<and>
         aggregate_timeline_comments_mainpage sv df' =
           [(0, \<lparr>comments = [a, b], total_likes = likeCount a + likeCount b,
                 representative_time = 0\<rparr>),
            (11, \<lparr>comments = [c], total_likes = likeCount c, representative_time = 11\<rparr>)] \<and>
         aggregate_timeline_comments sv df' =
           [(0, \<lparr>comments = list_sort_reverse likeCount [a, b],
                 total_likes = likeCount a + likeCount b, representative_time = 0\<rparr>),
            (11, \<lparr>comments = [c], total_likes = likeCount c, representative_time = 11\<rparr>)]))"
proof -
  have keys: "g \<in> set (map fst td) \<and> (ts \<in> set (map fst td) \<longrightarrow> ts = g) \<longrightarrow>
      (map fst (snd (group_row (Some g, td) (ts, r))) = map fst td @ [ts] \<longleftrightarrow> \<bar>ts - g\<bar> > 5) \<and>
      (map fst (snd (group_row (Some g, td) (ts, r))) = map fst td \<longleftrightarrow> \<bar>ts - g\<bar> \<le> 5) \<and>
      (map fst (snd (group_row_mainpage (Some g, td) (ts, r))) = map fst td @ [ts]
         \<longleftrightarrow> \<bar>ts - g\<bar> > 5) \<and>
      (map fst (snd (group_row_mainpage (Some g, td) (ts, r))) = map fst td
         \<longleftrightarrow> \<bar>ts - g\<bar> \<le> 5)"
    unfolding group_row_keys by (auto simp: next_group_def)
  have anchors: "fst (group_row (Some g, td) (ts, r)) = Some (if \<bar>ts - g\<bar> > 5 then ts else g)"
    "fst (group_row_mainpage (Some g, td) (ts, r)) = Some (if \<bar>ts - g\<bar> > 5 then ts else g)"
    "fst (group_row (Some g, td) (g + 5, r)) = Some g"
    "fst (group_row_mainpage (Some g, td) (g + 5, r)) = Some g"
    "fst (group_row (None, td) (ts, r)) = Some ts"
    "fst (group_row_mainpage (None, td) (ts, r)) = Some ts"
    unfolding group_row_anchor by (simp_all add: next_group_def)
  have gaps: "sorts_by_timestamp sv \<longrightarrow>
      sorted_wrt (\<lambda>a b. a + 5 < b) (map fst (aggregate_timeline_comments sv df)) \<and>
      sorted_wrt (\<lambda>a b. a + 5 < b) (map fst (aggregate_timeline_comments_mainpage sv df))"
    by (simp add: aggregate_keys aggregate_mainpage_keys)
  have ex: "sorts_by_timestamp sv \<and> mset (map fst (notna_rows df')) = {#0, 4, 11#} \<longrightarrow>
      (\<exists>a b c.
         mset (filter (\<lambda>r. timestamp r \<noteq> None) df') = {#a, b, c#} \<and>
         timestamp a = Some 0 \<and> timestamp b = Some 4 \<and> timestamp c = Some 11 \<and>
         aggregate_timeline_comments_mainpage sv df' =
           [(0, \<lparr>comments = [a, b], total_likes = likeCount a + likeCount b,
                 representative_time = 0\<rparr>),
            (11, \<lparr>comments = [c], total_likes = likeCount c, representative_time = 11\<rparr>)] \<and>
         aggregate_timeline_comments sv df' =
           [(0, \<lparr>comments = list_sort_reverse likeCount [a, b],
                 total_likes = likeCount a + likeCount b, representative_time = 0\<rparr>),
            (11, \<lparr>comments = [c], total_likes = likeCount c, representative_time = 11\<rparr>)])"
    using offsets_0_4_11 [of sv df'] by blast
  show ?thesis
    by (intro conjI; (rule keys anchors gaps ex))
qed

theorem cluster_threshold_witness:
  "map fst (snd (group_row (Some 0,
      [(0::int, \<lparr>comments =
          [(comment_record ''0:00 start'' ''u1'' 1 ''d1'')\<lparr>timestamp := Some 0\<rparr>],
        total_likes = 1, representative_time = 0\<rparr>)])
     (6, (comment_record ''0:06 x'' ''u2'' 2 ''d2'')\<lparr>timestamp := Some 6\<rparr>))) = [0, 6] \<and>
   map fst (snd (group_row (Some 0,
      [(0::int, \<lparr>comments =
          [(comment_record ''0:00 start'' ''u1'' 1 ''d1'')\<lparr>timestamp := Some 0\<rparr>],
        total_likes = 1, representative_time = 0\<rparr>)])
     (5, (comment_record ''0:05 y'' ''u3'' 3 ''d3'')\<lparr>timestamp := Some 5\<rparr>))) = [0] \<and>
   mset (map fst (notna_rows
     (apply_parse_timestamp
       [comment_record ''0:11 c'' ''u1'' 1 ''d1'',
        comment_record ''0:00 a'' ''u2'' 2 ''d2'',
        comment_record ''0:04 b'' ''u3'' 3 ''d3'']))) = {#0, 4, 11#} \<and>
   map fst (aggregate_timeline_comments (sort_key fst)
     (apply_parse_timestamp
       [comment_record ''0:11 c'' ''u1'' 1 ''d1'',
        comment_record ''0:00 a'' ''u2'' 2 ''d2'',
        comment_record ''0:04 b'' ''u3'' 3 ''d3''])) = [0, 11] \<and>
   map fst (aggregate_timeline_comments_mainpage (sort_key fst)
     (apply_parse_timestamp
       [comment_record ''0:11 c'' ''u1'' 1 ''d1'',
        comment_record ''0:00 a'' ''u2'' 2 ''d2'',
        comment_record ''0:04 b'' ''u3'' 3 ''d3''])) = [0, 11] \<and>
   sorted_wrt (\<lambda>a b. a + 5 < b) (map fst (aggregate_timeline_comments (sort_key fst)
     (apply_parse_timestamp
       [comment_record ''0:11 c'' ''u1'' 1 ''d1'',
        comment_record ''0:00 a'' ''u2'' 2 ''d2'',
        comment_record ''0:04 b'' ''u3'' 3 ''d3''])))"
proof -
  let ?td = "[(0::int, \<lparr>comments =
          [(comment_record ''0:00 start'' ''u1'' 1 ''d1'')\<lparr>timestamp := Some 0\<rparr>],
        total_likes = 1, representative_time = 0\<rparr>)]"
  let ?r6 = "(comment_record ''0:06 x'' ''u2'' 2 ''d2'')\<lparr>timestamp := Some 6\<rparr>"
  let ?r5 = "(comment_record ''0:05 y'' ''u3'' 3 ''d3'')\<lparr>timestamp := Some 5\<rparr>"
  let ?df = "apply_parse_timestamp
       [comment_record ''0:11 c'' ''u1'' 1 ''d1'',
        comment_record ''0:00 a'' ''u2'' 2 ''d2'',
        comment_record ''0:04 b'' ''u3'' 3 ''d3'']"
  have h6: "(0::int) \<in> set (map fst ?td) \<and> (6 \<in> set (map fst ?td) \<longrightarrow> (6::int) = 0)"
    by simp
  have h5: "(0::int) \<in> set (map fst ?td) \<and> (5 \<in> set (map fst ?td) \<longrightarrow> (5::int) = 0)"
    by simp
  have h: "mset (map fst (notna_rows ?df)) = {#0, 4, 11#}"
    by (simp add: apply_parse_timestamp_def comment_record_def parse_defs matcher_defs)
  note sk = sorts_by_timestamp_sort_key
  note t6 = cluster_threshold [where g = 0 and td = ?td and ts = 6 and r = ?r6
      and sv = "sort_key fst" and df = ?df and df' = ?df]
  note t5 = cluster_threshold [where g = 0 and td = ?td and ts = 5 and r = ?r5
      and sv = "sort_key fst" and df = ?df and df' = ?df]
  from t6 h6 have "map fst (snd (group_row (Some 0, ?td) (6, ?r6))) = map fst ?td @ [6]
      \<longleftrightarrow> \<bar>6 - 0\<bar> > (5::int)" by blast
  then have 1: "map fst (snd (group_row (Some 0, ?td) (6, ?r6))) = [0, 6]" by simp
  from t5 h5 have "map fst (snd (group_row (Some 0, ?td) (5, ?r5))) = map fst ?td
      \<longleftrightarrow> \<bar>5 - 0\<bar> \<le> (5::int)" by blast
  then have 2: "map fst (snd (group_row (Some 0, ?td) (5, ?r5))) = [0]" by simp
  from t6 sk h obtain a b c where
    "aggregate_timeline_comments_mainpage (sort_key fst) ?df =
       [(0, \<lparr>comments = [a, b], total_likes = likeCount a + likeCount b,
             representative_time = 0\<rparr>),
        (11, \<lparr>comments = [c], total_likes = likeCount c, representative_time = 11\<rparr>)]"
    "aggregate_timeline_comments (sort_key fst) ?df =
       [(0, \<lparr>comments = list_sort_reverse likeCount [a, b],
             total_likes = likeCount a + likeCount b, representative_time = 0\<rparr>),
        (11, \<lparr>comments = [c], total_likes = likeCount c, representative_time = 11\<rparr>)]"
    by blast
  then have 3: "map fst (aggregate_timeline_comments (sort_key fst) ?df) = [0, 11]"
    and 4: "map fst (aggregate_timeline_comments_mainpage (sort_key fst) ?df) = [0, 11]"
    by simp_all
  from t6 sk have 5: "sorted_wrt (\<lambda>a b. a + 5 < b)
      (map fst (aggregate_timeline_comments (sort_key fst) ?df))" by blast
  from 1 2 h 3 4 5 show ?thesis by (intro conjI)
qed

text \<open>
  C1, as amended. Timestamped comments at the offsets 0, 4, 8 and 12, in any arrival
  order and for every sort of the frame by timestamp, give two Moments: key 0 with the
  comments at 0 and 4, and key 8 with the comments at 8 and 12. The offset 8 is compared
  with the group 0, not with the previous offset 4, and opens a new group.
\<close>

theorem chained_offsets_split:
  "sorts_by_timestamp sv \<and> mset (map fst (notna_rows df)) = {#0, 4, 8, 12#} \<longrightarrow>
   (\<exists>a b c d.
     mset (filter (\<lambda>r. timestamp r \<noteq> None) df) = {#a, b, c, d#} \<and>
     timestamp a = Some 0 \<and> timestamp b = Some 4 \<and> timestamp c = Some 8 \<and>
     timestamp d = Some 12 \<and>
     aggregate_timeline_comments_mainpage sv df =
       [(0, \<lparr>comments = [a, b], total_likes = likeCount a + likeCount b,
             representative_time = 0\<rparr>),
        (8, \<lparr>comments = [c, d], total_likes = likeCount c + likeCount d,
             representative_time = 8\<rparr>)] \<and>
     aggregate_timeline_comments sv df =
       [(0, \<lparr>comments = list_sort_reverse likeCount [a, b],
             total_likes = likeCount a + likeCount b, representative_time = 0\<rparr>),
        (8, \<lparr>comments = list_sort_reverse likeCount [c, d],
             total_likes = likeCount c + likeCount d, representative_time = 8\<rparr>)])"
  using offsets_0_4_8_12 [of sv df] by blast

theorem chained_offsets_split_witness:
  "mset (map fst (notna_rows
     (apply_parse_timestamp
       [comment_record ''0:12 d'' ''u1'' 6 ''d1'',
        comment_record ''0:00 a'' ''u2'' 2 ''d2'',
        comment_record ''no time'' ''u5'' 1 ''d5'',
        comment_record ''0:08 c'' ''u3'' 3 ''d3'',
        comment_record ''0:04 b'' ''u4'' 7 ''d4'']))) = {#0, 4, 8, 12#} \<and>
   map fst (aggregate_timeline_comments (sort_key fst)
     (apply_parse_timestamp
       [comment_record ''0:12 d'' ''u1'' 6 ''d1'',
        comment_record ''0:00 a'' ''u2'' 2 ''d2'',
        comment_record ''no time'' ''u5'' 1 ''d5'',
        comment_record ''0:08 c'' ''u3'' 3 ''d3'',
        comment_record ''0:04 b'' ''u4'' 7 ''d4''])) = [0, 8] \<and>
   map fst (aggregate_timeline_comments_mainpage (sort_key fst)
     (apply_parse_timestamp
       [comment_record ''0:12 d'' ''u1'' 6 ''d1'',
        comment_record ''0:00 a'' ''u2'' 2 ''d2'',
        comment_record ''no time'' ''u5'' 1 ''d5'',
        comment_record ''0:08 c'' ''u3'' 3 ''d3'',
        comment_record ''0:04 b'' ''u4'' 7 ''d4''])) = [0, 8]"
proof -
  let ?df = "apply_parse_timestamp
       [comment_record ''0:12 d'' ''u1'' 6 ''d1'',
        comment_record ''0:00 a'' ''u2'' 2 ''d2'',
        comment_record ''no time'' ''u5'' 1 ''d5'',
        comment_record ''0:08 c'' ''u3'' 3 ''d3'',
        comment_record ''0:04 b'' ''u4'' 7 ''d4'']"
  have h: "mset (map fst (notna_rows ?df)) = {#0, 4, 8, 12#}"
    by (simp add: apply_parse_timestamp_def comment_record_def parse_defs matcher_defs)
  from chained_offsets_split [of "sort_key fst" ?df] sorts_by_timestamp_sort_key h
  obtain a b c d where
    "aggregate_timeline_comments_mainpage (sort_key fst) ?df =
       [(0, \<lparr>comments = [a, b], total_likes = likeCount a + likeCount b,
             representative_time = 0\<rparr>),
        (8, \<lparr>comments = [c, d], total_likes = likeCount c + likeCount d,
             representative_time = 8\<rparr>)]"
    "aggregate_timeline_comments (sort_key fst) ?df =
       [(0, \<lparr>comments = list_sort_reverse likeCount [a, b],
             total_likes = likeCount a + likeCount b, representative_time = 0\<rparr>),
        (8, \<lparr>comments = list_sort_reverse likeCount [c, d],
             total_likes = likeCount c + likeCount d, representative_time = 8\<rparr>)]"
    by blast
  then have "map fst (aggregate_timeline_comments (sort_key fst) ?df) = [0, 8]"
    and "map fst (aggregate_timeline_comments_mainpage (sort_key fst) ?df) = [0, 8]"
    by simp_all
  with h show ?thesis by (intro conjI)
qed

text \<open>
  The claim C1 as stated fails: the offsets 0, 4, 8 and 12 give two Moments, with the
  keys 0 and 8, in both files.
\<close>

theorem chained_offsets_counterexample:
  "map fst (aggregate_timeline_comments (sort_key fst)
     (apply_parse_timestamp
       [comment_record ''0:00 a'' ''u1'' 1 ''d1'',
        comment_record ''0:04 b'' ''u2'' 2 ''d2'',
        comment_record ''0:08 c'' ''u3'' 3 ''d3'',
        comment_record ''0:12 d'' ''u4'' 4 ''d4''])) = [0, 8] \<and>
   map (map timestamp \<circ> comments \<circ> snd) (aggregate_timeline_comments (sort_key fst)
     (apply_parse_timestamp
       [comment_record ''0:00 a'' ''u1'' 1 ''d1'',
        comment_record ''0:04 b'' ''u2'' 2 ''d2'',
        comment_record ''0:08 c'' ''u3'' 3 ''d3'',
        comment_record ''0:12 d'' ''u4'' 4 ''d4''])) = [ [Some 4, Some 0], [Some 12, Some 8] ] \<and>
   map fst (aggregate_timeline_comments_mainpage (sort_key fst)
     (apply_parse_timestamp
       [comment_record ''0:00 a'' ''u1'' 1 ''d1'',
        comment_record ''0:04 b'' ''u2'' 2 ''d2'',
        comment_record ''0:08 c'' ''u3'' 3 ''d3'',
        comment_record ''0:12 d'' ''u4'' 4 ''d4''])) = [0, 8] \<and>
   map (map timestamp \<circ> comments \<circ> snd) (aggregate_timeline_comments_mainpage (sort_key fst)
     (apply_parse_timestamp
       [comment_record ''0:00 a'' ''u1'' 1 ''d1'',
        comment_record ''0:04 b'' ''u2'' 2 ''d2'',
        comment_record ''0:08 c'' ''u3'' 3 ''d3'',
        comment_record ''0:12 d'' ''u4'' 4 ''d4''])) = [ [Some 0, Some 4], [Some 8, Some 12] ]"
  by (simp add: apply_parse_timestamp_def comment_record_def parse_defs matcher_defs walk_defs)

end
